(* ===== verification/Prelude.thy ===== *)
theory Prelude
  imports Main "HOL-Library.Word" "HOL-Library.Monad_Syntax"
begin

text \<open>
  The machine under the C programs: bytes, unsigned words of 16, 32 and 64 bits, the
  byte order of the host, and byte-addressed objects.

  A C object that the programs access through casts (a packet buffer, a packed struct)
  is a list of bytes. Every access goes through a partial operation: \<open>None\<close> is an access
  outside the object, which C leaves undefined. Everything that depends on the byte order
  of the host takes an argument of type \<open>endian\<close>, so that the theorems say what the code
  does on both kinds of host. A C \<open>int\<close> is an \<open>int\<close>, its conversions to unsigned types
  are written out.
\<close>

unbundle bit_operations_syntax

type_synonym u8 = "8 word"
type_synonym u16 = "16 word"
type_synonym u32 = "32 word"
type_synonym u64 = "64 word"
type_synonym bytes = "8 word list"

named_theorems mem_simps \<open>access to byte-addressed objects\<close>
named_theorems codec_simps \<open>byte encodings of words\<close>

lemma length_2E:
  assumes "length xs = 2"
  obtains a b where "xs = [a, b]"
  using assms by (cases xs; cases "tl xs") auto

lemma length_4E:
  assumes "length xs = 4"
  obtains a b c d where "xs = [a, b, c, d]"
  using assms by (auto simp: length_Suc_conv numeral_eq_Suc)

lemma find_append:
  "find P (xs @ ys) = (case find P xs of Some x \<Rightarrow> Some x | None \<Rightarrow> find P ys)"
  by (induction xs) auto

lemma mod_add_cancel_left:
  fixes s :: nat
  assumes eq: "(s + a) mod n = (s + b) mod n"
  shows "a mod n = b mod n"
proof (cases n)
  case (Suc m)
  have shift: "x mod n = (m * s + (s + x)) mod n" for x
  proof -
    have "m * s + (s + x) = x + n * s" by (simp add: Suc)
    then show ?thesis by (simp only: mod_mult_self2)
  qed
  have "(m * s + (s + a)) mod n = (m * s + (s + b)) mod n"
    using eq by (rule mod_add_cong [OF refl])
  then show ?thesis by (simp only: shift [symmetric])
qed (use eq in simp)

section \<open>Byte encodings\<close>

datatype endian = Little | Big

fun le_nat :: "bytes \<Rightarrow> nat" where
  "le_nat [] = 0"
| "le_nat (b # bs) = unat b + 256 * le_nat bs"

fun nat_le :: "nat \<Rightarrow> nat \<Rightarrow> bytes" where
  "nat_le 0 v = []"
| "nat_le (Suc n) v = of_nat v # nat_le n (v div 256)"

lemma nat_le_numeral [codec_simps]:
  "nat_le (numeral k) v = of_nat v # nat_le (pred_numeral k) (v div 256)"
  by (simp only: numeral_eq_Suc [of k] nat_le.simps)

lemma length_nat_le [simp]: "length (nat_le n v) = n"
  by (induction n arbitrary: v) auto

lemma unat_of_nat_u8 [simp]: "unat (of_nat v :: u8) = v mod 256"
  by (simp add: unat_of_nat take_bit_eq_mod)

lemma u8_less [simp]: "unat (b :: u8) < 256"
  using unsigned_less [of b] by simp

lemma u16_less: "unat (w :: u16) < 65536"
  using unsigned_less [of w] by simp

lemma u32_less: "unat (w :: u32) < 4294967296"
  using unsigned_less [of w] by simp

lemma le_nat_nat_le: "le_nat (nat_le n v) = v mod 256 ^ n"
proof (induction n arbitrary: v)
  case (Suc n)
  then show ?case by (simp add: mod_mult2_eq)
qed simp

lemma le_nat_bound: "le_nat bs < 256 ^ length bs"
proof (induction bs)
  case (Cons b bs)
  have "unat b + 256 * le_nat bs < 256 * (le_nat bs + 1)" by simp
  also have "\<dots> \<le> 256 * 256 ^ length bs"
    using Cons by (simp add: Suc_leI)
  finally show ?case by simp
qed simp

lemma nat_le_le_nat: "nat_le (length bs) (le_nat bs) = bs"
  proof (induction bs)
  case (Cons b bs)
  have "of_nat (unat b + 256 * le_nat bs) = b"
    by (simp add: word_unat_eq_iff unat_of_nat take_bit_eq_mod del: of_nat_add of_nat_mult)
  with Cons show ?case by simp
qed simp

lemma unat_and_low: "unat (w AND mask n) = unat w mod 2 ^ n" for w :: "'a::len word"
  by (simp only: take_bit_eq_mask [symmetric] unsigned_take_bit_eq take_bit_eq_mod [where ?'a = nat])

lemma unat_drop_bit: "unat (drop_bit n w) = unat w div 2 ^ n" for w :: "'a::len word"
  by (simp only: unat_drop_bit_eq drop_bit_eq_div [where ?'a = nat])

lemma unat_NOT32: "unat (NOT s) = 4294967295 - unat s" for s :: u32
proof -
  have "NOT s = - 1 - s" by (simp add: not_eq_complement)
  moreover have "s \<le> - 1" by simp
  ultimately show ?thesis by (simp add: unat_sub unsigned_minus_1_eq_mask mask_eq_exp_minus_1)
qed

lemma unat_ucast: "unat (ucast w :: 'b::len word) = unat w mod 2 ^ LENGTH('b)" for w :: "'a::len word"
  by (simp only: unsigned_ucast_eq take_bit_eq_mod)

text \<open>\<open>enc\<close> is the object representation of a word on a host, \<open>dec\<close> its inverse.\<close>

definition dec :: "endian \<Rightarrow> bytes \<Rightarrow> 'a::len word" where
  "dec e bs = of_nat (case e of Little \<Rightarrow> le_nat bs | Big \<Rightarrow> le_nat (rev bs))"

definition enc :: "endian \<Rightarrow> 'a::len word \<Rightarrow> bytes" where
  "enc e w = (let bs = nat_le (LENGTH('a) div 8) (unat w)
              in case e of Little \<Rightarrow> bs | Big \<Rightarrow> rev bs)"

lemma length_enc [simp]: "length (enc e (w :: 'a::len word)) = LENGTH('a) div 8"
  by (simp add: enc_def Let_def split: endian.split)

lemma dec_enc:
  assumes "LENGTH('a::len) = 8 * n"
  shows "dec e (enc e (w :: 'a word)) = w"
proof -
  have "(256::nat) ^ n = 2 ^ LENGTH('a)"
    by (simp add: assms power_mult)
  then have "unat w mod 256 ^ n = unat w"
    using unsigned_less [of w] by simp
  then show ?thesis
    by (simp add: enc_def dec_def Let_def le_nat_nat_le assms split: endian.split)
qed

lemma enc_dec:
  assumes "LENGTH('a::len) = 8 * length bs"
  shows "enc e (dec e bs :: 'a word) = bs"
proof -
  have p: "(256::nat) ^ length bs = 2 ^ LENGTH('a)"
    by (simp add: assms power_mult)
  have u: "unat (of_nat (le_nat cs) :: 'a word) = le_nat cs" if "length cs = length bs" for cs
    using le_nat_bound [of cs] that p by (simp add: unat_of_nat take_bit_nat_eq_self)
  show ?thesis
  proof (cases e)
    case Little
    then show ?thesis
      using nat_le_le_nat [of bs] by (simp add: enc_def dec_def u assms)
  next
    case Big
    then show ?thesis
      using nat_le_le_nat [of "rev bs"] by (simp add: enc_def dec_def u assms)
  qed
qed

text \<open>The conversions between host order and network (big-endian) order.\<close>

definition hton :: "endian \<Rightarrow> 'a::len word \<Rightarrow> 'a word" where
  "hton e w = dec e (enc Big w)"

definition ntoh :: "endian \<Rightarrow> 'a::len word \<Rightarrow> 'a word" where
  "ntoh e w = dec Big (enc e w)"

section \<open>Objects in memory\<close>

definition write_bytes :: "bytes \<Rightarrow> nat \<Rightarrow> bytes \<Rightarrow> bytes option" where
  "write_bytes mem off bs =
     (if off + length bs \<le> length mem
      then Some (take off mem @ bs @ drop (off + length bs) mem) else None)"

definition load_obj :: "nat \<Rightarrow> (bytes \<Rightarrow> 'w) \<Rightarrow> bytes \<Rightarrow> nat \<Rightarrow> 'w option" where
  "load_obj n d mem off =
     (if off + n \<le> length mem then Some (d (take n (drop off mem))) else None)"

definition load8 :: "bytes \<Rightarrow> nat \<Rightarrow> u8 option" where
  "load8 mem off = (if off < length mem then Some (mem ! off) else None)"

definition load16 :: "endian \<Rightarrow> bytes \<Rightarrow> nat \<Rightarrow> u16 option" where
  "load16 e = load_obj 2 (dec e)"

definition load32 :: "endian \<Rightarrow> bytes \<Rightarrow> nat \<Rightarrow> u32 option" where
  "load32 e = load_obj 4 (dec e)"

definition load64 :: "endian \<Rightarrow> bytes \<Rightarrow> nat \<Rightarrow> u64 option" where
  "load64 e = load_obj 8 (dec e)"

definition store8 :: "bytes \<Rightarrow> nat \<Rightarrow> u8 \<Rightarrow> bytes option" where
  "store8 mem off b = write_bytes mem off [b]"

definition store_word :: "endian \<Rightarrow> bytes \<Rightarrow> nat \<Rightarrow> 'a::len word \<Rightarrow> bytes option" where
  "store_word e mem off w = write_bytes mem off (enc e w)"

definition memset :: "bytes \<Rightarrow> nat \<Rightarrow> u8 \<Rightarrow> nat \<Rightarrow> bytes option" where
  "memset mem off b n = write_bytes mem off (replicate n b)"

lemma write_bytes_Some_iff [mem_simps]:
  "write_bytes mem off bs = Some m \<longleftrightarrow>
     off + length bs \<le> length mem \<and> m = take off mem @ bs @ drop (off + length bs) mem"
  by (auto simp: write_bytes_def)

lemma write_bytes_length: "write_bytes mem off bs = Some m \<Longrightarrow> length m = length mem"
  by (auto simp: mem_simps)

lemma write_bytes_nth_other:
  assumes "write_bytes mem off bs = Some m" and "i < off \<or> off + length bs \<le> i"
  shows "m ! i = mem ! i"
proof -
  from assms(1) have m: "m = take off mem @ bs @ drop (off + length bs) mem"
    and l: "off + length bs \<le> length mem" by (auto simp: mem_simps)
  from assms(2) show ?thesis
  proof
    assume "i < off"
    then show ?thesis using l by (simp add: m nth_append)
  next
    assume "off + length bs \<le> i"
    then have i: "i = off + length bs + (i - off - length bs)" by simp
    have "(take off mem @ bs @ drop (off + length bs) mem) ! (off + length bs + j) =
          drop (off + length bs) mem ! j" for j
      using l by (simp add: nth_append)
    then have "m ! i = drop (off + length bs) mem ! (i - off - length bs)"
      by (subst i) (simp only: m)
    also have "\<dots> = mem ! i"
      using l \<open>off + length bs \<le> i\<close> by simp
    finally show ?thesis .
  qed
qed

lemma load8_Some_iff [mem_simps]: "load8 mem off = Some b \<longleftrightarrow> off < length mem \<and> b = mem ! off"
  by (auto simp: load8_def)

lemma load8_in_range [simp]: "off < length mem \<Longrightarrow> load8 mem off = Some (mem ! off)"
  by (simp add: load8_def)

text \<open>
  The interface of a scalar type in memory: a fixed size, an object representation and
  the value read back from it. Loads after stores are proved once, for every scalar type.
\<close>

locale scalar =
  fixes size :: nat and encode :: "'w \<Rightarrow> bytes" and decode :: "bytes \<Rightarrow> 'w"
  assumes length_encode: "length (encode w) = size"
    and decode_encode: "decode (encode w) = w"
    and encode_decode: "length bs = size \<Longrightarrow> encode (decode bs) = bs"
begin

lemma load_Some_iff:
  "load_obj size decode mem off = Some w \<longleftrightarrow>
     off + size \<le> length mem \<and> take size (drop off mem) = encode w"
proof -
  have "decode (take size (drop off mem)) = w \<longleftrightarrow> take size (drop off mem) = encode w"
    if "off + size \<le> length mem"
    using that decode_encode encode_decode [of "take size (drop off mem)"] by auto
  then show ?thesis by (auto simp: load_obj_def)
qed

lemma load_store_same:
  "write_bytes mem off (encode w) = Some m \<Longrightarrow> load_obj size decode m off = Some w"
  by (auto simp: load_Some_iff write_bytes_Some_iff length_encode)

lemma load_store_other:
  assumes w: "write_bytes mem off bs = Some m" and d: "off' + size \<le> off \<or> off + length bs \<le> off'"
  shows "load_obj size decode m off' = load_obj size decode mem off'"
proof -
  have l: "length m = length mem" using w by (rule write_bytes_length)
  have "take size (drop off' m) = take size (drop off' mem)" if "off' + size \<le> length mem"
  proof (rule nth_equalityI)
    show "length (take size (drop off' m)) = length (take size (drop off' mem))"
      by (simp add: l)
    fix i assume "i < length (take size (drop off' m))"
    then have i: "i < size" by simp
    with d have "m ! (off' + i) = mem ! (off' + i)"
      by (intro write_bytes_nth_other [OF w]) arith
    with i that l show "take size (drop off' m) ! i = take size (drop off' mem) ! i"
      by simp
  qed
  then show ?thesis using l by (auto simp: load_obj_def)
qed

end

interpretation u16: scalar 2 "enc e" "dec e :: bytes \<Rightarrow> u16" for e
  by unfold_locales (simp_all add: dec_enc [where n = 2] enc_dec)

interpretation u32: scalar 4 "enc e" "dec e :: bytes \<Rightarrow> u32" for e
  by unfold_locales (simp_all add: dec_enc [where n = 4] enc_dec)

interpretation u64: scalar 8 "enc e" "dec e :: bytes \<Rightarrow> u64" for e
  by unfold_locales (simp_all add: dec_enc [where n = 8] enc_dec)

lemmas load_defs = load16_def load32_def load64_def

lemma ntoh_dec: "LENGTH('a::len) = 8 * length bs \<Longrightarrow> ntoh e (dec e bs :: 'a word) = dec Big bs"
  by (simp add: ntoh_def enc_dec)

lemma enc_hton: "LENGTH('a::len) = 8 * n \<Longrightarrow> enc e (hton e (w :: 'a word)) = enc Big w"
  by (simp add: hton_def enc_dec)

lemma ntoh_hton: "LENGTH('a::len) = 8 * n \<Longrightarrow> ntoh e (hton e (w :: 'a word)) = w"
  by (simp add: ntoh_def enc_hton dec_enc [where n = n])

lemma load16_in_range:
  assumes "off + 2 \<le> length mem"
  shows "load16 e mem off = Some (dec e [mem ! off, mem ! Suc off])"
proof -
  have "drop off mem = mem ! off # mem ! Suc off # drop (Suc (Suc off)) mem"
    using assms by (simp add: Cons_nth_drop_Suc)
  then show ?thesis using assms by (simp add: load16_def load_obj_def)
qed

lemma unat_dec16:
  "unat (dec e [a, b] :: u16) = (case e of Little \<Rightarrow> unat a + 256 * unat b | Big \<Rightarrow> 256 * unat a + unat b)"
proof -
  have "unat a + 256 * unat b < 65536" and "256 * unat a + unat b < 65536"
    using u8_less [of a] u8_less [of b] by linarith+
  then show ?thesis
    by (simp add: dec_def unat_of_nat take_bit_eq_mod split: endian.split
        del: of_nat_add of_nat_mult)
qed

lemma enc8 [codec_simps]: "enc e (b :: u8) = [b]"
  by (simp add: enc_def Let_def word_unat_eq_iff split: endian.split)

lemmas codec_eval = codec_simps enc_def dec_def hton_def ntoh_def load_obj_def load8_def load_defs Let_def

section \<open>C strings\<close>

text \<open>
  A C string in a buffer ends at its first zero byte; reading one from a buffer without a
  zero byte runs out of the object. \<open>strncpy dst s n\<close> copies the \<open>n\<close> first bytes of the
  string and pads with zeros, it does not terminate the copy when \<open>s\<close> is longer.
\<close>

definition bytes_of :: "string \<Rightarrow> bytes" where
  "bytes_of s = map (\<lambda>c. of_nat (of_char c)) s"

definition string_of :: "bytes \<Rightarrow> string" where
  "string_of bs = map (\<lambda>b. char_of (unat b)) bs"

definition c_string :: "bytes \<Rightarrow> bytes option" where
  "c_string bs = (if 0 \<in> set bs then Some (takeWhile (\<lambda>b. b \<noteq> 0) bs) else None)"

definition strncpy :: "bytes \<Rightarrow> bytes \<Rightarrow> nat \<Rightarrow> bytes option" where
  "strncpy dst s n = write_bytes dst 0 (take n s @ replicate (n - length s) 0)"

lemma length_bytes_of [simp]: "length (bytes_of s) = length s"
  by (simp add: bytes_of_def)

lemma string_of_bytes_of: "string_of (bytes_of s) = s"
  by (induction s) (auto simp: bytes_of_def string_of_def)

lemma takeWhile_no_zero: "0 \<notin> set (bs :: bytes) \<Longrightarrow> takeWhile (\<lambda>b. b \<noteq> 0) bs = bs"
  by (induction bs) auto

lemma c_string_append_zero:
  "0 \<notin> set s \<Longrightarrow> c_string (s @ 0 # rest) = Some s"
  by (induction s) (auto simp: c_string_def)

lemma c_string_no_zero: "c_string bs = Some s \<Longrightarrow> 0 \<notin> set s"
  by (auto simp: c_string_def split: if_splits dest: set_takeWhileD)

lemma c_string_length: "c_string bs = Some s \<Longrightarrow> length s < length bs"
proof -
  assume "c_string bs = Some s"
  then have z: "0 \<in> set bs" and s: "s = takeWhile (\<lambda>b. b \<noteq> 0) bs"
    by (auto simp: c_string_def split: if_splits)
  have "length (takeWhile (\<lambda>b. b \<noteq> 0) bs) \<noteq> length bs"
  proof
    assume "length (takeWhile (\<lambda>b. b \<noteq> 0) bs) = length bs"
    then have "takeWhile (\<lambda>b. b \<noteq> 0) bs = bs"
      by (metis takeWhile_eq_take take_all order_refl)
    with z show False by (metis (full_types) set_takeWhileD)
  qed
  with length_takeWhile_le [of "\<lambda>b. b \<noteq> 0" bs] show ?thesis by (simp add: s)
qed

section \<open>Arrays of objects and random bytes\<close>

definition nth_opt :: "'a list \<Rightarrow> nat \<Rightarrow> 'a option" where
  "nth_opt xs i = (if i < length xs then Some (xs ! i) else None)"

lemma nth_opt_Some [simp]: "i < length xs \<Longrightarrow> nth_opt xs i = Some (xs ! i)"
  by (simp add: nth_opt_def)

text \<open>
  \<open>rand\<close> of the C library: a function of a generator state, which the theorems take as an
  argument. \<open>fill_random\<close> is the loop \<open>for (...) buf[i] = rand() & 0xFF;\<close> over \<open>n\<close> bytes.
\<close>

type_synonym 'g rand = "'g \<Rightarrow> u32 \<times> 'g"

fun fill_random :: "'g rand \<Rightarrow> bytes \<Rightarrow> nat \<Rightarrow> nat \<Rightarrow> 'g \<Rightarrow> (bytes \<times> 'g) option" where
  "fill_random rnd mem off 0 g = Some (mem, g)"
| "fill_random rnd mem off (Suc n) g = (
     let (r, g) = rnd g
     in do { mem \<leftarrow> store8 mem off (ucast (r AND 0xFF)); fill_random rnd mem (off + 1) n g })"

lemma fill_random_total:
  assumes "off + n \<le> length mem"
  shows "\<exists>bs g'. fill_random rnd mem off n g = Some (take off mem @ bs @ drop (off + n) mem, g') \<and> length bs = n"
  using assms
proof (induction n arbitrary: mem off g)
  case (Suc n)
  obtain r g1 where r: "rnd g = (r, g1)" by fastforce
  let ?m = "take off mem @ [ucast (r AND 0xFF)] @ drop (Suc off) mem"
  have s: "store8 mem off (ucast (r AND 0xFF)) = Some ?m"
    using Suc.prems by (simp add: store8_def write_bytes_def)
  have "off + 1 + n \<le> length ?m" using Suc.prems by simp
  then obtain bs g' where "fill_random rnd ?m (off + 1) n g1 =
      Some (take (off + 1) ?m @ bs @ drop (off + 1 + n) ?m, g')" and "length bs = n"
    using Suc.IH by blast
  moreover have "take (off + 1) ?m = take off mem @ [ucast (r AND 0xFF)]"
    using Suc.prems by simp
  moreover have "drop (off + 1 + n) ?m = drop (off + Suc n) mem"
    using Suc.prems by (simp add: min_def add.commute)
  ultimately show ?case using r s
    by (auto intro: exI [of _ "ucast (r AND 0xFF) # bs"])
qed simp

section \<open>Layout of structures\<close>

text \<open>A structure without padding: its fields in order, with their sizes. An offset is that of
  the first field of the name.\<close>

type_synonym layout = "(string \<times> nat) list"

fun offset_of :: "layout \<Rightarrow> string \<Rightarrow> nat" where
  "offset_of [] f = 0"
| "offset_of ((g, n) # fields) f = (if f = g then 0 else n + offset_of fields f)"

definition sizeof :: "layout \<Rightarrow> nat" where
  "sizeof fields = sum_list (map snd fields)"

end
