(* ===== verification/Stdio.thy ===== *)
theory Stdio
  imports Prelude
begin

text \<open>
  What the programs print. An execution yields the list of its output calls, each with its
  format string and the values of its arguments (\<open>out\<close>); \<open>render\<close> gives the text, by the
  conversions of the standard library that the sources use: \<open>%d %i %u %x %X %s\<close> with the
  flag \<open>0\<close>, a width (a number or \<open>*\<close>), a precision and the length modifier \<open>l\<close>. \<open>sprintf\<close>
  and \<open>snprintf\<close> write the same text into an object, with its terminating zero byte.
\<close>

datatype carg = CInt int | CStr string

datatype out =
    Printf string "carg list"
  | Fprintf_stderr string "carg list"
  | Perror string

section \<open>Digits\<close>

definition digit_char :: "bool \<Rightarrow> nat \<Rightarrow> char" where
  "digit_char upper d = char_of (if d < 10 then 48 + d else if upper then 55 + d else 87 + d)"

function digit_string :: "bool \<Rightarrow> nat \<Rightarrow> nat \<Rightarrow> string" where
  "digit_string upper base n =
     (if base < 2 \<or> n < base then [digit_char upper n]
      else digit_string upper base (n div base) @ [digit_char upper (n mod base)])"
  by pat_completeness auto
termination
  by (relation "measure (\<lambda>(u, b, n). n)") auto

declare digit_string.simps [simp del]

lemma digit_string_less: "n < base \<Longrightarrow> digit_string u base n = [digit_char u n]"
  by (simp add: digit_string.simps)

lemma digit_string_ge:
  "2 \<le> base \<Longrightarrow> base \<le> n \<Longrightarrow>
   digit_string u base n = digit_string u base (n div base) @ [digit_char u (n mod base)]"
  by (simp add: digit_string.simps [of u base n])

lemma length_digit_string:
  assumes "2 \<le> base" and "n < base ^ k" and "0 < k"
  shows "length (digit_string u base n) \<le> k"
  using assms(2,3)
proof (induction k arbitrary: n)
  case (Suc k)
  show ?case
  proof (cases "n < base")
    case False
    with Suc.prems have k: "0 < k" by (cases k) auto
    have "n div base < base ^ k"
      using Suc.prems assms(1) by (simp add: div_less_iff_less_mult mult.commute)
    then have "length (digit_string u base (n div base)) \<le> k"
      using k by (rule Suc.IH)
    with False assms(1) show ?thesis by (simp add: digit_string_ge)
  qed (simp add: digit_string_less)
qed simp

lemma digit_string_nonempty: "digit_string u base n \<noteq> []"
  by (subst digit_string.simps) simp

text \<open>Reading digits back.\<close>

definition digit_val :: "char \<Rightarrow> nat" where
  "digit_val c = (let n = of_char c in if n < 65 then n - 48 else if n < 97 then n - 55 else n - 87)"

definition number_of :: "nat \<Rightarrow> string \<Rightarrow> nat" where
  "number_of base s = foldl (\<lambda>v c. base * v + digit_val c) 0 s"

lemma digit_val_digit_char: "d < 16 \<Longrightarrow> digit_val (digit_char u d) = d"
  by (simp add: digit_val_def digit_char_def Let_def of_char_of)

lemma number_of_digit_string:
  assumes "2 \<le> base" and "base \<le> 16"
  shows "number_of base (digit_string u base n) = n"
proof (induction n rule: less_induct)
  case (less n)
  show ?case
  proof (cases "n < base")
    case True
    with assms show ?thesis by (simp add: digit_string_less number_of_def digit_val_digit_char)
  next
    case False
    then have "number_of base (digit_string u base (n div base)) = n div base"
      using assms by (intro less) auto
    moreover have "n mod base < 16" using assms mod_less_divisor [of base n] by linarith
    ultimately show ?thesis
      using False assms by (simp add: digit_string_ge number_of_def digit_val_digit_char)
  qed
qed

lemma decimal_digits: "c \<in> set (digit_string u 10 n) \<Longrightarrow> (48::nat) \<le> of_char c \<and> of_char c < (58::nat)"
proof (induction n rule: less_induct)
  case (less n)
  show ?case
  proof (cases "n < 10")
    case True
    with less.prems show ?thesis by (simp add: digit_string_less digit_char_def of_char_of)
  next
    case False
    then have "n div 10 < n" by simp
    from less.IH [OF this] less.prems False show ?thesis
      by (auto simp: digit_string_ge digit_char_def of_char_of)
  qed
qed

section \<open>Formatted output\<close>

datatype fmt_state = Literal | Spec bool nat "nat option"

definition pad_left :: "char \<Rightarrow> nat \<Rightarrow> string \<Rightarrow> string" where
  "pad_left c n s = replicate (n - length s) c @ s"

definition fmt_int :: "bool \<Rightarrow> nat \<Rightarrow> nat option \<Rightarrow> string \<Rightarrow> string \<Rightarrow> string" where
  "fmt_int zero width prec sign digits =
     (case prec of
        Some p \<Rightarrow> pad_left CHR '' '' width (sign @ pad_left CHR ''0'' p digits)
      | None \<Rightarrow>
          (if zero then sign @ pad_left CHR ''0'' (width - length sign) digits
           else pad_left CHR '' '' width (sign @ digits)))"

definition fmt_conv :: "char \<Rightarrow> bool \<Rightarrow> nat \<Rightarrow> nat option \<Rightarrow> carg \<Rightarrow> string" where
  "fmt_conv c zero width prec arg =
     (case arg of
        CStr s \<Rightarrow> pad_left CHR '' '' width (case prec of None \<Rightarrow> s | Some p \<Rightarrow> take p s)
      | CInt n \<Rightarrow>
          (if c = CHR ''x'' then fmt_int zero width prec [] (digit_string False 16 (nat n))
          else if c = CHR ''X'' then fmt_int zero width prec [] (digit_string True 16 (nat n))
          else if c = CHR ''u'' then fmt_int zero width prec [] (digit_string False 10 (nat n))
          else fmt_int zero width prec (if n < 0 then ''-'' else []) (digit_string False 10 (nat \<bar>n\<bar>))))"

fun fmt :: "fmt_state \<Rightarrow> string \<Rightarrow> carg list \<Rightarrow> string" where
  "fmt st [] args = []"
| "fmt Literal (c # cs) args =
     (if c = CHR ''%'' then fmt (Spec False 0 None) cs args else c # fmt Literal cs args)"
| "fmt (Spec z w p) (c # cs) args =
     (if c = CHR ''0'' \<and> w = 0 \<and> p = None then fmt (Spec True w p) cs args
      else if 48 \<le> (of_char c :: nat) \<and> (of_char c :: nat) < 58 then
        (case p of
           None \<Rightarrow> fmt (Spec z (10 * w + (of_char c - 48)) p) cs args
         | Some k \<Rightarrow> fmt (Spec z w (Some (10 * k + (of_char c - 48)))) cs args)
      else if c = CHR ''.'' then fmt (Spec z w (Some 0)) cs args
      else if c = CHR ''*'' then
        (case args of CInt n # as \<Rightarrow> fmt (Spec z (nat n) p) cs as | _ \<Rightarrow> [])
      else if c = CHR ''l'' then fmt (Spec z w p) cs args
      else if c = CHR ''%'' then c # fmt Literal cs args
      else (case args of a # as \<Rightarrow> fmt_conv c z w p a @ fmt Literal cs as | [] \<Rightarrow> []))"

definition c_format :: "string \<Rightarrow> carg list \<Rightarrow> string" where
  "c_format f args = fmt Literal f args"

fun render :: "out \<Rightarrow> string" where
  "render (Printf f args) = c_format f args"
| "render (Fprintf_stderr f args) = c_format f args"
| "render (Perror s) = s"

text \<open>The arguments of the first output call with a given format.\<close>

fun printed :: "string \<Rightarrow> out list \<Rightarrow> carg list option" where
  "printed f [] = None"
| "printed f (Printf g args # rest) = (if f = g then Some args else printed f rest)"
| "printed f (_ # rest) = printed f rest"

lemma printed_append:
  "printed f (xs @ ys) = (case printed f xs of None \<Rightarrow> printed f ys | Some args \<Rightarrow> Some args)"
  by (induction f xs rule: printed.induct) auto

definition sprintf :: "bytes \<Rightarrow> string \<Rightarrow> carg list \<Rightarrow> bytes option" where
  "sprintf buf f args = write_bytes buf 0 (bytes_of (c_format f args) @ [0])"

definition snprintf :: "bytes \<Rightarrow> nat \<Rightarrow> string \<Rightarrow> carg list \<Rightarrow> bytes option" where
  "snprintf buf n f args =
     (if n = 0 then Some buf
      else write_bytes buf 0 (bytes_of (take (n - 1) (c_format f args)) @ [0]))"

text \<open>A mark the sources print before a passed and before a failed check, in UTF-8.\<close>

abbreviation check_mark :: string where
  "check_mark \<equiv> [CHR 0xE2, CHR 0x9C, CHR 0x93]"

abbreviation ballot_x :: string where
  "ballot_x \<equiv> [CHR 0xE2, CHR 0x9C, CHR 0x97]"

abbreviation nl :: string where
  "nl \<equiv> [CHR 0x0A]"

abbreviation of_u :: "'a::len word \<Rightarrow> carg" where
  "of_u w \<equiv> CInt (uint w)"

lemma length_pad_left: "length (pad_left c n s) = max n (length s)"
  by (simp add: pad_left_def)

section \<open>Decimal fields\<close>

definition show_dec :: "nat \<Rightarrow> string" where
  "show_dec n = digit_string False 10 n"

lemma fmt_conv_d: "fmt_conv CHR ''d'' False 0 None (CInt (int n)) = show_dec n"
  by (simp add: fmt_conv_def fmt_int_def pad_left_def show_dec_def)

lemma length_show_dec: "n < 256 \<Longrightarrow> length (show_dec n) \<le> 3"
  unfolding show_dec_def by (rule length_digit_string) simp_all

lemma show_dec_char: "c \<in> set (show_dec n) \<Longrightarrow> (48::nat) \<le> of_char c \<and> (of_char c :: nat) < 58"
  unfolding show_dec_def by (rule decimal_digits)

lemma number_of_show_dec: "number_of 10 (show_dec n) = n"
  unfolding show_dec_def by (rule number_of_digit_string) simp_all

fun split_dots :: "string \<Rightarrow> string list" where
  "split_dots [] = [[]]"
| "split_dots (c # cs) =
     (if c = CHR ''.'' then [] # split_dots cs
      else case split_dots cs of [] \<Rightarrow> [[c]] | w # ws \<Rightarrow> (c # w) # ws)"

lemma split_dots_plain: "CHR ''.'' \<notin> set s \<Longrightarrow> split_dots s = [s]"
  by (induction s) auto

lemma split_dots_dot: "CHR ''.'' \<notin> set s \<Longrightarrow> split_dots (s @ CHR ''.'' # t) = s # split_dots t"
  by (induction s) auto

definition dotted :: "nat list \<Rightarrow> string" where
  "dotted ns = concat (map (\<lambda>n. show_dec n @ ''.'') (butlast ns)) @ show_dec (last ns)"

definition dotted_octets :: "string \<Rightarrow> nat list" where
  "dotted_octets s = map (number_of 10) (split_dots s)"

lemma dot_not_in_show_dec: "CHR ''.'' \<notin> set (show_dec n)"
  using show_dec_char [of "CHR ''.''" n] by auto

lemma dotted_octets_dotted: "dotted_octets (dotted [a, b, c, d]) = [a, b, c, d]"
  by (simp add: dotted_octets_def dotted_def split_dots_dot split_dots_plain
      dot_not_in_show_dec number_of_show_dec)

lemma length_dotted:
  "a < 256 \<Longrightarrow> b < 256 \<Longrightarrow> c < 256 \<Longrightarrow> d < 256 \<Longrightarrow> length (dotted [a, b, c, d]) \<le> 15"
  using length_show_dec [of a] length_show_dec [of b] length_show_dec [of c] length_show_dec [of d]
  by (simp add: dotted_def)

lemma zero_not_in_bytes_of: "(0 :: u8) \<notin> set (bytes_of s) \<longleftrightarrow> CHR 0x00 \<notin> set s"
proof -
  have "of_nat (of_char c) = (0 :: u8) \<longleftrightarrow> c = CHR 0x00" for c
  proof -
    have "of_nat (of_char c) = (0 :: u8) \<longleftrightarrow> unat (of_nat (of_char c) :: u8) = 0"
      by (simp only: unat_eq_0)
    also have "\<dots> \<longleftrightarrow> (of_char c :: nat) = of_char CHR 0x00"
      by (simp only: unat_of_nat_u8) simp
    finally show ?thesis by (simp only: of_char_eq_iff)
  qed
  then show ?thesis by (auto simp: bytes_of_def image_iff)
qed

lemma dotted_no_zero: "CHR 0x00 \<notin> set (dotted [a, b, c, d])"
  using show_dec_char [of "CHR 0x00"] by (auto simp: dotted_def)

end
