(* ===== verification/Checksum.thy ===== *)
theory Checksum
  imports Stdio
begin

text \<open>
  The Internet checksum (RFC 1071) of coding-problems/05_checksum_calculator.c.

  \<open>sum_words\<close> and \<open>add_tail\<close> are the two accumulation steps both functions share,
  \<open>fold_sum\<close> is the folding loop, \<open>calculate_checksum\<close> and \<open>calculate_tcp_udp_checksum\<close>
  the functions themselves and \<open>checksum_main\<close> the demonstration. The data is the object
  behind the pointer, a read past its end is \<open>None\<close>. The specification is the sum of the
  16-bit words with end-around carry, \<open>rfc1071_sum\<close>. The locale \<open>inet_checksum\<close> states
  what a client of a checksum function relies on; it is interpreted here for this
  function and in the theory of the IP header for that file's copy.
\<close>

section \<open>The code\<close>

text \<open>The loop \<open>while (length > 1) { sum += *ptr++; length -= 2; }\<close>, on a 32-bit sum.\<close>

function sum_words :: "endian \<Rightarrow> bytes \<Rightarrow> nat \<Rightarrow> int \<Rightarrow> u32 \<Rightarrow> (nat \<times> int \<times> u32) option" where
  "sum_words e data ptr len s =
     (if len > 1
      then do { w \<leftarrow> load16 e data ptr; sum_words e data (ptr + 2) (len - 2) (s + ucast w) }
      else Some (ptr, len, s))"
  by pat_completeness auto
termination
  by (relation "measure (\<lambda>(e, data, ptr, len, s). nat len)") auto

declare sum_words.simps [simp del]

definition add_tail :: "bytes \<Rightarrow> nat \<times> int \<times> u32 \<Rightarrow> u32 option" where
  "add_tail data = (\<lambda>(ptr, len, s).
     if len > 0 then do { b \<leftarrow> load8 data ptr; Some (s + ucast b) } else Some s)"

lemma fold_step:
  fixes s :: u32
  shows "unat ((s AND 0xFFFF) + drop_bit 16 s) = unat s mod 65536 + unat s div 65536"
proof -
  have "unat s mod 65536 + unat s div 65536 < 2 ^ 32"
    using u32_less [of s] by simp
  then show ?thesis
    using unat_and_low [of s 16] unat_drop_bit [of 16 s] by (simp add: unat_word_ariths mask_eq_exp_minus_1)
qed

lemma high_half_zero: "drop_bit 16 (s :: u32) = 0 \<longleftrightarrow> unat s < 65536"
proof -
  have "drop_bit 16 s = 0 \<longleftrightarrow> unat (drop_bit 16 s) = 0"
    by (simp only: unat_eq_0)
  then show ?thesis by (simp only: unat_drop_bit) (simp add: div_eq_0_iff)
qed

text \<open>The loop \<open>while (sum >> 16) sum = (sum & 0xFFFF) + (sum >> 16);\<close>.\<close>

function fold_sum :: "u32 \<Rightarrow> u32" where
  "fold_sum s = (if drop_bit 16 s \<noteq> 0 then fold_sum ((s AND 0xFFFF) + drop_bit 16 s) else s)"
  by pat_completeness auto
termination
proof (relation "measure unat")
  fix s :: u32
  assume "drop_bit 16 s \<noteq> 0"
  then have "65536 \<le> unat s" by (simp add: high_half_zero)
  then have "0 < unat s div 65536" by (simp add: div_greater_zero_iff)
  then have "unat s mod 65536 + unat s div 65536 < unat s"
    using div_mult_mod_eq [of "unat s" 65536] by linarith
  then show "((s AND 0xFFFF) + drop_bit 16 s, s) \<in> measure unat"
    by (simp add: fold_step)
qed simp

declare fold_sum.simps [simp del]

lemma fold_sum_done: "drop_bit 16 s = 0 \<Longrightarrow> fold_sum s = s"
  by (simp add: fold_sum.simps)

lemma fold_sum_more: "drop_bit 16 s \<noteq> 0 \<Longrightarrow> fold_sum s = fold_sum ((s AND 0xFFFF) + drop_bit 16 s)"
  by (simp add: fold_sum.simps [of s])

lemma sum_words_done: "len \<le> 1 \<Longrightarrow> sum_words e data ptr len s = Some (ptr, len, s)"
  by (simp add: sum_words.simps)

lemma sum_words_more:
  "1 < len \<Longrightarrow> load16 e data ptr = Some w \<Longrightarrow>
   sum_words e data ptr len s = sum_words e data (ptr + 2) (len - 2) (s + ucast w)"
  by (simp add: sum_words.simps [of e data ptr len])

definition calculate_checksum :: "endian \<Rightarrow> bytes \<Rightarrow> int \<Rightarrow> u16 option" where
  "calculate_checksum e data len = do {
     acc \<leftarrow> sum_words e data 0 len 0;
     s \<leftarrow> add_tail data acc;
     Some (ucast (NOT (fold_sum s))) }"

text \<open>
  The pseudo-header of TCP and UDP: the layout of \<open>pseudo_header_t\<close>, 12 bytes without
  padding. The addresses are stored as they are passed, the length in network order.
\<close>

record pseudo_header =
  src_ip :: u32
  dst_ip :: u32
  zero :: u8
  protocol :: u8
  plength :: u16

definition pseudo_header_bytes :: "endian \<Rightarrow> pseudo_header \<Rightarrow> bytes" where
  "pseudo_header_bytes e p =
     enc e (src_ip p) @ enc e (dst_ip p) @ [zero p, protocol p] @ enc e (plength p)"

fun add_pseudo :: "endian \<Rightarrow> bytes \<Rightarrow> nat \<Rightarrow> nat \<Rightarrow> u32 \<Rightarrow> u32 option" where
  "add_pseudo e pseudo ptr 0 s = Some s"
| "add_pseudo e pseudo ptr (Suc n) s =
     do { w \<leftarrow> load16 e pseudo ptr; add_pseudo e pseudo (ptr + 2) n (s + ucast w) }"

lemma add_pseudo_numeral:
  "add_pseudo e pseudo ptr (numeral k) s =
     do { w \<leftarrow> load16 e pseudo ptr; add_pseudo e pseudo (ptr + 2) (pred_numeral k) (s + ucast w) }"
  by (simp only: numeral_eq_Suc [of k] add_pseudo.simps)

definition calculate_tcp_udp_checksum ::
    "endian \<Rightarrow> u32 \<Rightarrow> u32 \<Rightarrow> u8 \<Rightarrow> bytes \<Rightarrow> int \<Rightarrow> u16 option" where
  "calculate_tcp_udp_checksum e src dst proto data len = do {
     let pseudo = \<lparr>src_ip = src, dst_ip = dst, zero = 0, protocol = proto,
                   plength = hton e (word_of_int len)\<rparr>;
     s \<leftarrow> add_pseudo e (pseudo_header_bytes e pseudo) 0 (12 div 2) 0;
     acc \<leftarrow> sum_words e data 0 len s;
     s \<leftarrow> add_tail data acc;
     Some (ucast (NOT (fold_sum s))) }"

definition checksum_main :: "endian \<Rightarrow> out list option" where
  "checksum_main e = do {
     let text = ''Hello, Network Protocols!'';
     let test_data = bytes_of text @ [0];
     checksum \<leftarrow> calculate_checksum e test_data (int (length text));
     checksum' \<leftarrow> calculate_tcp_udp_checksum e 0x7F000001 0x08080808 6 test_data (int (length text));
     Some [Printf (''Network Checksum Calculator'' @ nl) [],
           Printf (''==========================='' @ nl @ nl) [],
           Printf (''Test Data: \"%s\"'' @ nl) [CStr text],
           Printf (''IP-style Checksum: 0x%04X'' @ nl @ nl) [of_u checksum],
           Printf (''TCP Checksum (with pseudo-header): 0x%04X'' @ nl) [of_u checksum']] }"

section \<open>The specification: addition with end-around carry\<close>

text \<open>RFC 1071 pads data of odd length with a zero byte and takes the 16-bit words as they lie in
  memory, added with end-around carry.\<close>

definition padded :: "bytes \<Rightarrow> bytes" where
  "padded bs = (if even (length bs) then bs else bs @ [0])"

fun memory_words :: "endian \<Rightarrow> bytes \<Rightarrow> nat list" where
  "memory_words e (a # b # bs) = unat (dec e [a, b] :: u16) # memory_words e bs"
| "memory_words e _ = []"

definition oc_add :: "nat \<Rightarrow> nat \<Rightarrow> nat" where
  "oc_add a b = (if a + b < 65536 then a + b else a + b - 65535)"

definition rfc1071_sum :: "endian \<Rightarrow> bytes \<Rightarrow> nat" where
  "rfc1071_sum e bs = foldl oc_add 0 (memory_words e (padded bs))"

text \<open>The words that the code adds: the odd last byte is added as a number, which makes it the low
  half of a word on both kinds of host.\<close>

fun words_of :: "endian \<Rightarrow> bytes \<Rightarrow> nat list" where
  "words_of e [] = []"
| "words_of e [b] = [unat b]"
| "words_of e (a # b # bs) = unat (dec e [a, b] :: u16) # words_of e bs"

text \<open>The closed form of such a sum: 0, or the representative in \<open>1..65535\<close>.\<close>

definition oc :: "nat \<Rightarrow> nat" where
  "oc n = (if n = 0 then 0 else (n - 1) mod 65535 + 1)"

lemma oc_le: "oc n \<le> 65535"
  using mod_less_divisor [of 65535 "n - 1"] by (auto simp: oc_def)

lemma oc_0 [simp]: "oc 0 = 0"
  by (simp add: oc_def)

lemma oc_small: "n \<le> 65535 \<Longrightarrow> oc n = n"
  by (auto simp: oc_def)

lemma oc_eq_0_iff [simp]: "oc n = 0 \<longleftrightarrow> n = 0"
  by (simp add: oc_def)

lemma oc_mod: "oc n mod 65535 = n mod 65535"
  by (cases n) (auto simp: oc_def mod_simps)

lemma oc_alt: "oc n = (if n = 0 then 0 else if n mod 65535 = 0 then 65535 else n mod 65535)"
proof (cases n)
  case (Suc k)
  have "Suc k mod 65535 = (if Suc (k mod 65535) = 65535 then 0 else Suc (k mod 65535))"
    by (rule mod_Suc)
  then show ?thesis by (simp add: oc_def Suc)
qed (simp add: oc_def)

lemma oc_cong: "m mod 65535 = n mod 65535 \<Longrightarrow> m = 0 \<longleftrightarrow> n = 0 \<Longrightarrow> oc m = oc n"
  by (simp add: oc_alt)
lemma oc_wrap: "65535 < k \<Longrightarrow> k \<le> 131070 \<Longrightarrow> oc k = k - 65535"
proof -
  assume k: "65535 < k" "k \<le> 131070"
  then have "k - 1 = (k - 65536) + 65535" by simp
  then have "(k - 1) mod 65535 = (k - 65536) mod 65535" by (metis mod_add_self2)
  also have "\<dots> = k - 65536" using k by simp
  finally show ?thesis using k by (simp add: oc_def)
qed

lemma oc_add_oc: "b < 65536 \<Longrightarrow> oc_add (oc n) b = oc (n + b)"
proof -
  assume b: "b < 65536"
  have m: "(oc n + b) mod 65535 = (n + b) mod 65535"
    by (rule mod_add_cong) (simp_all add: oc_mod)
  have z: "oc n + b = 0 \<longleftrightarrow> n + b = 0" by simp
  have "oc_add (oc n) b = oc (oc n + b)"
    using oc_le [of n] b by (cases "oc n + b < 65536") (simp_all add: oc_add_def oc_small oc_wrap)
  also have "\<dots> = oc (n + b)" by (rule oc_cong [OF m z])
  finally show ?thesis .
qed

lemma oc_fold_step: "oc (n mod 65536 + n div 65536) = oc n"
proof (rule oc_cong)
  have "n = n mod 65536 + n div 65536 + 65535 * (n div 65536)"
    using div_mult_mod_eq [of n 65536] by linarith
  then have "n mod 65535 = (n mod 65536 + n div 65536 + 65535 * (n div 65536)) mod 65535"
    by (rule arg_cong)
  then show "(n mod 65536 + n div 65536) mod 65535 = n mod 65535"
    by (simp only: mod_mult_self2)
  show "n mod 65536 + n div 65536 = 0 \<longleftrightarrow> n = 0"
    using div_mult_mod_eq [of n 65536] by auto
qed

lemma oc_verify:
  assumes "0 < s" and "c \<le> 65535"
  shows "c = 65535 - oc s \<longleftrightarrow> oc (s + c) = 65535 \<and> c \<noteq> 65535"
proof -
  have "(s + c) mod 65535 = (oc s + c) mod 65535"
    by (rule mod_add_cong) (simp_all add: oc_mod)
  then have m: "oc (s + c) = 65535 \<longleftrightarrow> (oc s + c) mod 65535 = 0"
    using assms(1) by (auto simp: oc_alt)
  have o: "1 \<le> oc s" "oc s \<le> 65535"
  proof -
    have "oc s \<noteq> 0" using assms(1) by simp
    then show "1 \<le> oc s" by linarith
  qed (rule oc_le)
  show ?thesis
  proof
    assume "c = 65535 - oc s"
    with o have "oc s + c = 65535" and "c \<noteq> 65535" by simp_all
    then show "oc (s + c) = 65535 \<and> c \<noteq> 65535" by (simp add: m)
  next
    assume a: "oc (s + c) = 65535 \<and> c \<noteq> 65535"
    then obtain k where k: "oc s + c = 65535 * k" by (auto simp: m mod_eq_0_iff_dvd)
    with o a assms(2) have "0 < k" "k < 2" by simp_all
    then have "k = 1" by simp
    with k show "c = 65535 - oc s" by simp
  qed
qed

lemma unat_fold_sum: "unat (fold_sum s) = oc (unat s)"
proof (induction s rule: fold_sum.induct)
  case (1 s)
  show ?case
  proof (cases "drop_bit 16 s = 0")
    case True
    then show ?thesis by (simp add: fold_sum.simps [of s] high_half_zero oc_small)
  next
    case False
    then have "unat (fold_sum ((s AND 0xFFFF) + drop_bit 16 s)) =
        oc (unat ((s AND 0xFFFF) + drop_bit 16 s))"
      by (rule 1)
    also have "\<dots> = oc (unat s)"
      by (simp only: fold_step oc_fold_step)
    finally show ?thesis using False by (simp only: fold_sum.simps [of s] if_True simp_thms)
  qed
qed

lemma unat_complement: 
  fixes s :: u32
  assumes "unat s \<le> 65535"
  shows "unat (ucast (NOT s) :: u16) = 65535 - unat s"
proof -
  have e: "4294967295 - unat s = 65535 - unat s + 65536 * 65535" using assms by simp
  have "unat (ucast (NOT s) :: u16) = (4294967295 - unat s) mod 2 ^ LENGTH(16)"
    by (simp only: unat_ucast unat_NOT32)
  also have "\<dots> = (65535 - unat s + 65536 * 65535) mod 65536"
    by (simp only: e) simp
  also have "\<dots> = 65535 - unat s"
    by (simp only: mod_mult_self2 mod_less)
  finally show ?thesis .
qed
abbreviation word_sum :: "endian \<Rightarrow> bytes \<Rightarrow> nat" where
  "word_sum e bs \<equiv> sum_list (words_of e bs)"

lemma words_of_less: "w \<in> set (words_of e bs) \<Longrightarrow> w < 65536"
proof (induction e bs rule: words_of.induct)
  case (2 e b)
  then show ?case using less_imp_le [OF u8_less [of b]] by simp
next
  case (3 e a b bs)
  then show ?case using u16_less [of "dec e [a, b]"] by auto
qed simp

lemma foldl_oc_add:
  "\<forall>w \<in> set ws. w < 65536 \<Longrightarrow> foldl oc_add (oc n) ws = oc (n + sum_list ws)"
  by (induction ws arbitrary: n) (auto simp: oc_add_oc add.assoc)

text \<open>On a little-endian host, and for an even length, these are the words of RFC 1071; on a
  big-endian host an odd last byte counts as if a zero byte stood before it.\<close>

lemma memory_words_even: "even (length bs) \<Longrightarrow> memory_words e bs = words_of e bs"
  by (induction e bs rule: words_of.induct) auto

lemma memory_words_padded: "memory_words Little (padded bs) = words_of Little bs"
proof -
  have "memory_words Little (bs @ [0]) = words_of Little bs" if "odd (length bs)"
    using that by (induction Little bs rule: words_of.induct) (auto simp: unat_dec16)
  then show ?thesis by (simp add: padded_def memory_words_even)
qed

definition zero_before_tail :: "bytes \<Rightarrow> bytes" where
  "zero_before_tail bs = butlast bs @ [0, last bs]"

lemma words_of_big_tail: "odd (length bs) \<Longrightarrow> words_of Big (zero_before_tail bs) = words_of Big bs"
  by (induction Big bs rule: words_of.induct) (auto simp: unat_dec16 zero_before_tail_def)

lemma rfc1071_sum_words:
  assumes "e = Little \<or> even (length bs)"
  shows "rfc1071_sum e bs = oc (word_sum e bs)"
proof -
  have "foldl oc_add (oc 0) (words_of e bs) = oc (0 + word_sum e bs)"
    by (rule foldl_oc_add) (blast dest: words_of_less)
  moreover have "memory_words e (padded bs) = words_of e bs"
  proof (cases "even (length bs)")
    case False
    with assms show ?thesis by (simp add: memory_words_padded)
  qed (simp add: padded_def memory_words_even)
  ultimately show ?thesis by (simp add: rfc1071_sum_def oc_def [of 0])
qed

lemma rfc1071_sum_big_tail:
  assumes "odd (length bs)"
  shows "rfc1071_sum Big (zero_before_tail bs) = oc (word_sum Big bs)"
proof -
  have "bs \<noteq> []" using assms by auto
  then have "even (length (zero_before_tail bs))" using assms by (simp add: zero_before_tail_def)
  then show ?thesis using words_of_big_tail [OF assms] by (simp add: rfc1071_sum_words)
qed

lemma word_sum_bound: "word_sum e bs \<le> 65535 * ((length bs + 1) div 2)"
proof (induction e bs rule: words_of.induct)
  case (2 e b)
  then show ?case using less_imp_le [OF u8_less [of b]] by simp
next
  case (3 e a b bs)
  then show ?case using u16_less [of "dec e [a, b]"] by simp
qed simp

definition sum_bytes :: "endian \<Rightarrow> bytes \<Rightarrow> nat \<Rightarrow> int \<Rightarrow> u32 \<Rightarrow> u32 option" where
  "sum_bytes e data ptr len s = do { acc \<leftarrow> sum_words e data ptr len s; add_tail data acc }"

lemma sum_bytes_correct:
  "ptr + nat len \<le> length data \<Longrightarrow>
   sum_bytes e data ptr len s = Some (s + of_nat (sum_list (words_of e (take (nat len) (drop ptr data)))))"
proof (induction e data ptr len s rule: sum_words.induct)
  case (1 e data ptr len s)
  show ?case
  proof (cases "1 < len")
    case True
    with "1.prems" have r: "ptr + 2 \<le> length data" and n: "nat len = Suc (Suc (nat (len - 2)))"
      by linarith+
    let ?w = "dec e [data ! ptr, data ! Suc ptr] :: u16"
    have d: "drop ptr data = data ! ptr # data ! Suc ptr # drop (ptr + 2) data"
      using r by (simp add: Cons_nth_drop_Suc)
    have "sum_bytes e data ptr len s = sum_bytes e data (ptr + 2) (len - 2) (s + ucast ?w)"
      using True r by (simp add: sum_bytes_def sum_words.simps [of e data ptr len] load16_in_range)
    also have "\<dots> = Some (s + ucast ?w + of_nat (sum_list (words_of e (take (nat (len - 2)) (drop (ptr + 2) data)))))"
      using True r n "1.prems" by (intro "1.IH") (auto simp: load16_in_range)
    also have "\<dots> = Some (s + of_nat (sum_list (words_of e (take (nat len) (drop ptr data)))))"
      by (simp only: n d take_Suc_Cons words_of.simps) (simp add: add.assoc)
    finally show ?thesis .
  next
    case False
    show ?thesis
    proof (cases "len = 1")
      case True
      with "1.prems" have "take 1 (drop ptr data) = [data ! ptr]"
        by (simp add: take_Suc_conv_app_nth flip: Cons_nth_drop_Suc)
      with True "1.prems" show ?thesis
        by (simp add: sum_bytes_def sum_words.simps [of e data ptr] add_tail_def)
    next
      case False
      with \<open>\<not> 1 < len\<close> show ?thesis
        by (simp add: sum_bytes_def sum_words.simps [of e data ptr] add_tail_def)
    qed
  qed
qed
text \<open>Up to 131074 bytes the 32-bit sum cannot wrap.\<close>

lemma sum_fits:
  assumes "length bs \<le> 131074"
  shows "unat (of_nat (word_sum e bs) :: u32) = word_sum e bs"
proof -
  have "word_sum e bs \<le> 65535 * ((length bs + 1) div 2)" by (rule word_sum_bound)
  also have "\<dots> \<le> 65535 * 65537" using assms by (intro mult_le_mono2) simp
  finally show ?thesis by (simp add: unat_of_nat take_bit_eq_mod)
qed

lemma calculate_checksum_alt:
  "calculate_checksum e data len =
     map_option (\<lambda>s. ucast (NOT (fold_sum s))) (sum_bytes e data 0 len 0)"
  by (auto simp: calculate_checksum_def sum_bytes_def map_option_case split: bind_split option.split)

lemma calculate_tcp_udp_checksum_alt:
  "calculate_tcp_udp_checksum e src dst proto data len =
     (let p = pseudo_header_bytes e \<lparr>src_ip = src, dst_ip = dst, zero = 0, protocol = proto,
                plength = hton e (word_of_int len)\<rparr>
      in do { s \<leftarrow> add_pseudo e p 0 6 0;
              map_option (\<lambda>s. ucast (NOT (fold_sum s))) (sum_bytes e data 0 len s) })"
  by (auto simp: calculate_tcp_udp_checksum_def sum_bytes_def map_option_case Let_def
      split: bind_split option.split)

lemma checksum_value: "unat (ucast (NOT (fold_sum s)) :: u16) = 65535 - oc (unat s)"
  using unat_complement [of "fold_sum s"] oc_le [of "unat s"] by (simp add: unat_fold_sum)

lemma calculate_checksum_total:
  "nat len \<le> length data \<Longrightarrow>
   calculate_checksum e data len =
     Some (ucast (NOT (fold_sum (of_nat (word_sum e (take (nat len) data))))))"
  by (simp add: calculate_checksum_alt sum_bytes_correct)

lemma sum_bytes_overrun: "length data < ptr + nat len \<Longrightarrow> 0 < len \<Longrightarrow> sum_bytes e data ptr len s = None"
proof (induction e data ptr len s rule: sum_words.induct)
  case (1 e data ptr len s)
  show ?case
  proof (cases "1 < len")
    case True
    show ?thesis
    proof (cases "load16 e data ptr")
      case None
      with True show ?thesis by (simp add: sum_bytes_def sum_words.simps [of e data ptr len])
    next
      case (Some w)
      then have "ptr + 2 \<le> length data"
        by (simp add: load16_def load_obj_def split: if_splits)
      moreover have "sum_bytes e data ptr len s = sum_bytes e data (ptr + 2) (len - 2) (s + ucast w)"
        using True Some by (simp add: sum_bytes_def sum_words.simps [of e data ptr len])
      moreover have "length data < ptr + 2 + nat (len - 2)" "0 < len - 2"
        using "1.prems" True \<open>ptr + 2 \<le> length data\<close> by linarith+
      ultimately show ?thesis using "1.IH" [OF True Some] by simp
    qed
  next
    case False
    with "1.prems" show ?thesis
      by (simp add: sum_bytes_def sum_words.simps [of e data ptr len] add_tail_def load8_def)
  qed
qed

lemma words_of_append:
  "even (length xs) \<Longrightarrow> words_of e (xs @ ys) = words_of e xs @ words_of e ys"
  by (induction e xs rule: words_of.induct) auto

lemma words_of_enc: "words_of e (enc e (w :: u16) @ ys) = unat w # words_of e ys"
proof -
  have "length (enc e w) = 2" by simp
  then obtain a b where ab: "enc e w = [a, b]" by (rule length_2E)
  then have "dec e [a, b] = w" using dec_enc [of 2 e w] by simp
  with ab show ?thesis by simp
qed

lemma word_sum_field:
  "even (length xs) \<Longrightarrow> word_sum e (xs @ enc e (w :: u16) @ ys) = word_sum e (xs @ ys) + unat w"
  by (simp add: words_of_append words_of_enc)

section \<open>The interface of a checksum function\<close>

text \<open>
  What the parsers rely on: over at most 131074 bytes that are there, the function returns
  the complement of the end-around-carry sum.
\<close>

locale inet_checksum =
  fixes e :: endian and cks :: "bytes \<Rightarrow> int \<Rightarrow> u16 option"
  assumes cks_value: "n \<le> length data \<Longrightarrow> n \<le> 131074 \<Longrightarrow>
    \<exists>c. cks data (int n) = Some c \<and> unat c = 65535 - oc (word_sum e (take n data))"
begin

lemma cks_all:
  assumes "length data \<le> 131074"
  obtains c where "cks data (int (length data)) = Some c" "unat c = 65535 - oc (word_sum e data)"
  using cks_value [of "length data" data] assms by auto

lemma cks_eq_iff:
  assumes "length d \<le> 131074" and "length d' = length d"
  shows "cks d (int (length d)) = cks d' (int (length d')) \<longleftrightarrow> oc (word_sum e d) = oc (word_sum e d')"
proof -
  obtain c where c: "cks d (int (length d)) = Some c" "unat c = 65535 - oc (word_sum e d)"
    using assms cks_all by metis
  obtain c' where c': "cks d' (int (length d')) = Some c'" "unat c' = 65535 - oc (word_sum e d')"
    using assms cks_all by metis
  have "c = c' \<longleftrightarrow> unat c = unat c'" by (simp add: word_unat_eq_iff)
  also have "\<dots> \<longleftrightarrow> oc (word_sum e d) = oc (word_sum e d')"
    using c(2) c'(2) oc_le [of "word_sum e d"] oc_le [of "word_sum e d'"] by linarith
  finally show ?thesis by (simp add: c c')
qed

lemma field_verifies:
  assumes "even (length xs)" and "length xs + 2 + length ys \<le> 131074"
    and c: "cks (xs @ enc e (0 :: u16) @ ys) (int (length xs + 2 + length ys)) = Some c"
  shows "cks (xs @ enc e c @ ys) (int (length xs + 2 + length ys)) = Some 0"
proof -
  let ?S = "word_sum e (xs @ ys)"
  obtain c' where "cks (xs @ enc e (0 :: u16) @ ys) (int (length (xs @ enc e (0 :: u16) @ ys))) = Some c'"
    and "unat c' = 65535 - oc (word_sum e (xs @ enc e (0 :: u16) @ ys))"
    using assms(2) by (auto intro: cks_all [of "xs @ enc e (0 :: u16) @ ys"])
  with c assms(1) have u: "unat c = 65535 - oc ?S"
    by (simp add: word_sum_field add.assoc)
  have "(?S + unat c) mod 65535 = (oc ?S + unat c) mod 65535"
    by (rule mod_add_cong) (simp_all add: oc_mod)
  also have "\<dots> = 0" using oc_le [of ?S] by (simp add: u)
  finally have "(?S + unat c) mod 65535 = 0" .
  moreover have "?S + unat c \<noteq> 0"
  proof
    assume z: "?S + unat c = 0"
    then have "oc ?S = 0" by (simp only: add_is_0 oc_eq_0_iff)
    with u z show False by linarith
  qed
  ultimately have f: "oc (?S + unat c) = 65535" by (simp add: oc_alt)
  obtain z where "cks (xs @ enc e c @ ys) (int (length (xs @ enc e c @ ys))) = Some z"
    and "unat z = 65535 - oc (word_sum e (xs @ enc e c @ ys))"
    using assms(2) by (auto intro: cks_all [of "xs @ enc e c @ ys"])
  then show ?thesis
    using assms(1) f by (simp add: word_sum_field word_unat_eq_iff add.assoc)
qed

lemma change_detected:
  fixes w w' :: u16
  assumes "even (length xs)" and "length xs + 2 + length ys \<le> 131074"
    and eq: "cks (xs @ enc e w @ ys) (int (length xs + 2 + length ys)) =
             cks (xs @ enc e w' @ ys) (int (length xs + 2 + length ys))"
  shows "w = w' \<or> {w, w'} = {0, 0xFFFF}"
proof -
  let ?S = "word_sum e (xs @ ys)"
  have "cks (xs @ enc e w @ ys) (int (length (xs @ enc e w @ ys))) =
        cks (xs @ enc e w' @ ys) (int (length (xs @ enc e w' @ ys)))"
    using eq by (simp add: add.assoc)
  then have "oc (?S + unat w) = oc (?S + unat w')"
    using assms(1,2) by (subst (asm) cks_eq_iff) (simp_all add: word_sum_field)
  then have "(?S + unat w) mod 65535 = (?S + unat w') mod 65535"
    by (metis oc_mod)
  then have "unat w mod 65535 = unat w' mod 65535"
    by (rule mod_add_cancel_left)
  moreover have "x mod 65535 = (if x = 65535 then 0 else x)" if "x < 65536" for x :: nat
    using that by auto
  ultimately have "(if unat w = 65535 then 0 else unat w) = (if unat w' = 65535 then 0 else unat w')"
    by (simp only: u16_less)
  then have "unat w = unat w' \<or> (unat w = 0 \<and> unat w' = 65535) \<or> (unat w = 65535 \<and> unat w' = 0)"
    by metis
  then show ?thesis by (auto simp: word_unat_eq_iff)
qed

end

interpretation ck05: inet_checksum e "calculate_checksum e" for e
proof unfold_locales
  fix n :: nat and data :: bytes
  assume "n \<le> length data" and "n \<le> 131074"
  then show "\<exists>c. calculate_checksum e data (int n) = Some c \<and>
      unat c = 65535 - oc (word_sum e (take n data))"
    by (simp add: calculate_checksum_total checksum_value sum_fits)
qed

section \<open>Byte order\<close>

lemma enc16:
  "enc e (w :: u16) = (let lo = of_nat (unat w); hi = of_nat (unat w div 256)
                       in case e of Little \<Rightarrow> [lo, hi] | Big \<Rightarrow> [hi, lo])"
  by (simp add: enc_def codec_simps Let_def split: endian.split)

lemma word_sum_swap:
  "even (length bs) \<Longrightarrow>
   256 * word_sum Little bs mod 65535 = word_sum Big bs mod 65535 \<and>
   (word_sum Little bs = 0 \<longleftrightarrow> word_sum Big bs = 0)"
proof (induction Little bs rule: words_of.induct)
  case (3 a b bs)
  let ?x = "word_sum Little bs" and ?y = "word_sum Big bs"
  have IH: "256 * ?x mod 65535 = ?y mod 65535" "?x = 0 \<longleftrightarrow> ?y = 0"
    using 3 by simp_all
  have "256 * (unat a + 256 * unat b) = 256 * unat a + unat b + 65535 * unat b" by simp
  then have "256 * (unat a + 256 * unat b) mod 65535 = (256 * unat a + unat b) mod 65535"
    by (simp only: mod_mult_self2)
  then have "(256 * (unat a + 256 * unat b) + 256 * ?x) mod 65535 = (256 * unat a + unat b + ?y) mod 65535"
    using IH(1) by (rule mod_add_cong)
  then show ?case using IH(2) by (simp add: unat_dec16 distrib_left)
qed simp_all

lemma oc_swap:
  assumes "256 * x mod 65535 = y mod 65535" and "x = 0 \<longleftrightarrow> y = 0"
  shows "oc y = 256 * (oc x mod 256) + oc x div 256"
proof -
  let ?a = "oc x mod 256" and ?b = "oc x div 256"
  have ox: "oc x = ?a + 256 * ?b" by simp
  have "256 * oc x = 256 * ?a + ?b + 65535 * ?b"
    using ox by linarith
  then have "256 * oc x mod 65535 = (256 * ?a + ?b) mod 65535"
    by (simp only: mod_mult_self2)
  moreover have "256 * oc x mod 65535 = 256 * x mod 65535"
    by (rule mod_mult_cong) (simp_all add: oc_mod)
  ultimately have m: "y mod 65535 = (256 * ?a + ?b) mod 65535" using assms(1) by simp
  have "?a = 0 \<and> ?b = 0 \<longleftrightarrow> oc x = 0" by (subst (3) ox) auto
  then have z: "y = 0 \<longleftrightarrow> 256 * ?a + ?b = 0" using assms(2) by auto
  have "?a \<le> 255" and "?b \<le> 255" using oc_le [of x] by (auto simp: less_Suc_eq_le [symmetric])
  then have "256 * ?a + ?b \<le> 65535" by linarith
  then show ?thesis using oc_cong [OF m z] by (simp add: oc_small)
qed

lemma complement_bytes:
  fixes c d :: u16
  assumes c: "unat c = 65535 - oc x" and d: "unat d = 65535 - oc y"
    and s: "oc y = 256 * (oc x mod 256) + oc x div 256"
  shows "enc Little c = enc Big d"
proof -
  let ?a = "oc x mod 256" and ?b = "oc x div 256"
  have ab: "?a \<le> 255" "?b \<le> 255"
    using oc_le [of x] by (auto simp: less_Suc_eq_le [symmetric])
  define p q where "p = 255 - ?a" and "q = 255 - ?b"
  have "unat c = p + 256 * q"
    using ab c div_mult_mod_eq [of "oc x" 256] unfolding p_def q_def by linarith
  moreover have "unat d = q + 256 * p"
    using ab d s unfolding p_def q_def by linarith
  moreover have "p < 256" "q < 256" by (simp_all add: p_def q_def)
  ultimately show ?thesis
    by (simp add: enc16 Let_def word_unat_eq_iff del: of_nat_add of_nat_mult)
qed

text \<open>The sum over the pseudo-header is the sum of its words.\<close>

lemma add_pseudo_correct:
  "ptr + 2 * n \<le> length ps \<Longrightarrow>
   add_pseudo e ps ptr n s = Some (s + of_nat (word_sum e (take (2 * n) (drop ptr ps))))"
proof (induction n arbitrary: ptr s)
  case (Suc n)
  then have r: "ptr + 2 \<le> length ps" by simp
  then have "drop ptr ps = ps ! ptr # ps ! Suc ptr # drop (ptr + 2) ps"
    by (simp add: Cons_nth_drop_Suc)
  with r Suc show ?case by (simp add: load16_in_range add.assoc)
qed simp

lemma length_pseudo_header_bytes: "length (pseudo_header_bytes e p) = 12"
  by (simp add: pseudo_header_bytes_def)

lemma word_sum_ones: "word_sum e (replicate (2 * n) 255) = 65535 * n"
proof (induction n)
  case (Suc n)
  have "replicate (2 * Suc n) (255 :: u8) = 255 # 255 # replicate (2 * n) 255" by simp
  with Suc show ?case by (simp add: unat_dec16 split: endian.split)
qed simp

lemmas checksum_eval = calculate_checksum_def calculate_tcp_udp_checksum_def add_pseudo_numeral
  sum_words_done sum_words_more fold_sum_done fold_sum_more add_tail_def bytes_of_def
  pseudo_header_bytes_def codec_eval

section \<open>Properties\<close>

text \<open>C1: Over at most 131074 bytes that are all inside the object, \<open>calculate_checksum\<close>
  returns the complement of the RFC 1071 sum of the data, for an even length on either host and
  for every length on a little-endian one: deferring the carries to the folding loop of the
  32-bit sum is the end-around-carry addition word by word. On a big-endian host an odd length
  gives the complement of the RFC 1071 sum of other data, with a zero byte put before the last
  byte instead of after it.\<close>

theorem checksum_is_rfc1071:
  assumes "0 \<le> len" and "nat len \<le> length data" and "len \<le> 131074"
  shows "\<exists>c. calculate_checksum e data len = Some c \<and>
    (e = Little \<or> even len \<longrightarrow> unat c = 65535 - rfc1071_sum e (take (nat len) data)) \<and>
    (e = Big \<and> odd len \<longrightarrow> unat c = 65535 - rfc1071_sum e (zero_before_tail (take (nat len) data)))"
proof -
  have "length (take (nat len) data) = nat len" using assms(2) by simp
  moreover have "even len = even (nat len)" using assms(1) by (simp add: even_nat_iff)
  moreover obtain c where "calculate_checksum e data len = Some c"
    and "unat c = 65535 - oc (word_sum e (take (nat len) data))"
    using ck05.cks_value [of "nat len" data e] assms by fastforce
  ultimately show ?thesis
    by (intro exI [of _ c]) (auto simp: rfc1071_sum_words rfc1071_sum_big_tail)
qed

theorem checksum_is_rfc1071_witness:
  "(\<exists>c. calculate_checksum Little [0x45, 0x00, 0xFF, 0x3C, 0x07] 5 = Some c \<and>
       unat c = 65535 - rfc1071_sum Little [0x45, 0x00, 0xFF, 0x3C, 0x07]) \<and>
   (\<exists>c. calculate_checksum Big [0x45, 0x00, 0x07] 3 = Some c \<and>
       unat c = 65535 - rfc1071_sum Big [0x45, 0x00, 0x00, 0x07])"
  using checksum_is_rfc1071 [of 5 "[0x45, 0x00, 0xFF, 0x3C, 0x07]" Little]
    checksum_is_rfc1071 [of 3 "[0x45, 0x00, 0x07]" Big]
  by (auto simp: zero_before_tail_def)

text \<open>\<open>calculate_checksum\<close> reads outside the data exactly when the length it is given
  is positive and larger than the data: it is memory safe for every honest length, for zero
  and for every negative length, and always returns.\<close>

lemma checksum_memory_safe:
  "calculate_checksum e data len = None \<longleftrightarrow> 0 < len \<and> length data < nat len"
proof (cases "nat len \<le> length data")
  case True
  then show ?thesis by (simp add: calculate_checksum_total)
next
  case False
  then show ?thesis using sum_bytes_overrun [of data 0 len e 0]
    by (simp add: calculate_checksum_alt)
qed

text \<open>C28: Storing the checksum of a buffer in its zeroed, 16-bit aligned checksum field, in
  the byte order of the host, makes the checksum of the whole buffer 0, wherever the field
  is: the check that a receiver makes.\<close>

theorem checksum_field_verifies:
  assumes "even (length xs)" and "length xs + 2 + length ys \<le> 131074"
    and "calculate_checksum e (xs @ enc e (0 :: u16) @ ys) (int (length xs + 2 + length ys)) = Some c"
  shows "calculate_checksum e (xs @ enc e c @ ys) (int (length xs + 2 + length ys)) = Some 0"
  using assms by (rule ck05.field_verifies)

theorem checksum_field_verifies_witness:
  "calculate_checksum Big ([0x45, 0x01] @ enc Big (0xBAFD :: u16) @ [0x01]) (int (2 + 2 + 1)) = Some 0"
  using checksum_field_verifies [where xs = "[0x45, 0x01]" and ys = "[0x01]" and e = Big
      and c = "0xBAFD"]
  by (simp add: checksum_eval)

text \<open>C29: Error detection: two buffers that differ in one aligned 16-bit word only have the
  same checksum only if the words are the two representations of zero, 0 and 0xFFFF.\<close>

theorem checksum_detects_word_change:
  fixes w w' :: u16
  assumes "even (length xs)" and "length xs + 2 + length ys \<le> 131074"
    and "calculate_checksum e (xs @ enc e w @ ys) (int (length xs + 2 + length ys)) =
         calculate_checksum e (xs @ enc e w' @ ys) (int (length xs + 2 + length ys))"
  shows "w = w' \<or> {w, w'} = {0, 0xFFFF}"
  using assms by (rule ck05.change_detected)

theorem checksum_detects_word_change_witness:
  "calculate_checksum Little ([1, 2] @ enc Little (0 :: u16) @ []) (int 4) =
   calculate_checksum Little ([1, 2] @ enc Little (0xFFFF :: u16) @ []) (int 4) \<and>
   ((0 :: u16) = 0xFFFF \<or> {0, 0xFFFF :: u16} = {0, 0xFFFF})"
proof -
  have eq: "calculate_checksum Little ([1, 2] @ enc Little (0 :: u16) @ []) (int 4) =
      calculate_checksum Little ([1, 2] @ enc Little (0xFFFF :: u16) @ []) (int 4)"
    by (simp add: checksum_eval)
  with checksum_detects_word_change [where xs = "[1, 2]" and ys = "[]" and e = Little
      and w = 0 and w' = "0xFFFF"] show ?thesis by simp
qed

text \<open>C27: Byte order independence: over an even number of bytes a little-endian and a
  big-endian host compute, and store in memory, the same two checksum bytes, although
  neither converts the words it adds.\<close>

theorem checksum_byte_order_independent:
  assumes "even n" and "n \<le> length data" and "n \<le> 131074"
  shows "map_option (enc Little) (calculate_checksum Little data (int n)) =
         map_option (enc Big) (calculate_checksum Big data (int n))"
proof -
  let ?d = "take n data"
  obtain c where c: "calculate_checksum Little data (int n) = Some c"
      "unat c = 65535 - oc (word_sum Little ?d)"
    using ck05.cks_value assms(2,3) by blast
  obtain d where d: "calculate_checksum Big data (int n) = Some d"
      "unat d = 65535 - oc (word_sum Big ?d)"
    using ck05.cks_value assms(2,3) by blast
  have "even (length ?d)" using assms by simp
  then have "oc (word_sum Big ?d) =
      256 * (oc (word_sum Little ?d) mod 256) + oc (word_sum Little ?d) div 256"
    using word_sum_swap oc_swap by blast
  with c(2) d(2) have "enc Little c = enc Big d" by (rule complement_bytes)
  then show ?thesis by (simp add: c d)
qed

theorem checksum_byte_order_independent_witness:
  "map_option (enc Little) (calculate_checksum Little [0x45, 0x00, 0x00, 0x3C] (int 4)) =
   map_option (enc Big) (calculate_checksum Big [0x45, 0x00, 0x00, 0x3C] (int 4))"
  by (rule checksum_byte_order_independent) simp_all

text \<open>The last byte of an odd length: on a little-endian host it counts as if the data
  were padded with a zero byte, which is what RFC 1071 asks for; on a big-endian host it is
  added to the low half of the sum instead, and the checksum of one byte is not that of the
  padded data.\<close>

lemma checksum_odd_tail:
  assumes "odd n" and "n \<le> length data" and "n + 1 \<le> 131074"
  shows "calculate_checksum Little data (int n) =
           calculate_checksum Little (take n data @ [0]) (int (n + 1)) \<and>
         calculate_checksum Big [1] 1 \<noteq> calculate_checksum Big [1, 0] 2"
proof
  have w: "word_sum Little (bs @ [0]) = word_sum Little bs" if "odd (length bs)" for bs
    using that by (induction Little bs rule: words_of.induct) (auto simp: unat_dec16)
  have "word_sum Little (take n data @ [0]) = word_sum Little (take n data)"
    using assms by (intro w) simp
  then show "calculate_checksum Little data (int n) =
      calculate_checksum Little (take n data @ [0]) (int (n + 1))"
    using assms by (simp add: calculate_checksum_total)
  show "calculate_checksum Big [1] 1 \<noteq> calculate_checksum Big [1, 0] 2"
    by (simp add: checksum_eval)
qed

theorem checksum_odd_tail_witness:
  "calculate_checksum Little [1, 2, 3] (int 3) =
     calculate_checksum Little (take 3 [1, 2, 3] @ [0]) (int (3 + 1)) \<and>
   calculate_checksum Big [1] 1 \<noteq> calculate_checksum Big [1, 0] 2"
  by (rule checksum_odd_tail) simp_all

text \<open>The 32-bit sum is too narrow beyond that bound: over 131076 bytes of 0xFF it wraps
  around without an end-around carry, and the code returns 1 where the complement of the
  RFC 1071 sum is 0.\<close>

lemma checksum_sum_wraps:
  "calculate_checksum e (replicate 131076 255) 131076 = Some 1 \<and>
   65535 - rfc1071_sum e (replicate 131076 255) = 0"
proof -
  have w: "word_sum e (replicate 131076 255) = 4295032830"
    using word_sum_ones [of e 65538] by simp
  then have o: "oc (word_sum e (replicate 131076 255)) = 65535"
    by (simp add: oc_alt)
  have "unat (of_nat (word_sum e (replicate 131076 255)) :: u32) = 65534"
    unfolding w by simp
  then have "unat (ucast (NOT (fold_sum (of_nat (word_sum e (replicate 131076 255))))) :: u16) = 1"
    by (simp add: checksum_value oc_small)
  then have "(ucast (NOT (fold_sum (of_nat (word_sum e (replicate 131076 255))))) :: u16) = 1"
    by (simp only: word_unat_eq_iff unsigned_1)
  then have "calculate_checksum e (replicate 131076 255) 131076 = Some 1"
    using calculate_checksum_total [of 131076 "replicate 131076 255" e] by simp
  with o show ?thesis by (simp add: rfc1071_sum_words)
qed

text \<open>C30: \<open>calculate_tcp_udp_checksum\<close> is \<open>calculate_checksum\<close> over the pseudo-header
  followed by the data: reading the pseudo-header first and the data after it, from two
  objects, is reading one.\<close>

theorem tcp_udp_checksum_prepends_pseudo_header:
  assumes "0 \<le> len" and "nat len \<le> length data"
  shows "calculate_tcp_udp_checksum e src dst proto data len =
         calculate_checksum e
           (pseudo_header_bytes e \<lparr>src_ip = src, dst_ip = dst, zero = 0, protocol = proto,
              plength = hton e (word_of_int len)\<rparr> @ take (nat len) data) (12 + len)"
proof -
  let ?p = "pseudo_header_bytes e \<lparr>src_ip = src, dst_ip = dst, zero = 0, protocol = proto,
              plength = hton e (word_of_int len)\<rparr>"
  have l: "length ?p = 12" by (rule length_pseudo_header_bytes)
  have "add_pseudo e ?p 0 6 0 = Some (of_nat (word_sum e ?p))"
    using add_pseudo_correct [of 0 6 ?p e 0] l by simp
  moreover have "word_sum e (?p @ take (nat len) data) = word_sum e ?p + word_sum e (take (nat len) data)"
    using l by (simp add: words_of_append)
  moreover have "nat (12 + len) = 12 + nat len" using assms(1) by simp
  ultimately show ?thesis
    using assms l sum_bytes_correct [of 0 len data e "of_nat (word_sum e ?p)"]
    by (simp add: calculate_tcp_udp_checksum_alt calculate_checksum_total Let_def)
qed

theorem tcp_udp_checksum_prepends_pseudo_header_witness:
  "calculate_tcp_udp_checksum Little 0x0100007F 0x08080808 17 [1, 2, 3] 3 =
   calculate_checksum Little
     (pseudo_header_bytes Little \<lparr>src_ip = 0x0100007F, dst_ip = 0x08080808, zero = 0,
        protocol = 17, plength = hton Little (word_of_int 3)\<rparr> @ take (nat 3) [1, 2, 3]) (12 + 3)"
  by (rule tcp_udp_checksum_prepends_pseudo_header) simp_all

text \<open>The demonstration passes its addresses in host order although the pseudo-header
  takes them in network order: on a little-endian host the printed TCP checksum is not the
  one of a segment from 127.0.0.1.\<close>

lemma main_checksum_of_host_order_address:
  "calculate_tcp_udp_checksum Little 0x7F000001 0x08080808 6
     (bytes_of ''Hello, Network Protocols!'') 25 = Some 0xA462 \<and>
   calculate_tcp_udp_checksum Little (hton Little 0x7F000001) (hton Little 0x08080808) 6
     (bytes_of ''Hello, Network Protocols!'') 25 = Some 0x21E5"
  by (simp add: checksum_eval)

end
