(* ===== verification/HexDump.thy ===== *)
theory HexDump
  imports Stdio
begin

text \<open>
  The text of a hex dump: the ESP parser, the IP parser and the WireGuard simulation print bytes
  with \<open>%02X\<close>. A reader that skips blanks and line ends gets the bytes back.
\<close>

lemma fmt_int_plain: "fmt_int False 0 None [] ds = ds"
  by (simp add: fmt_int_def pad_left_def)

section \<open>Two digits for a byte\<close>

definition hex2 :: "u8 \<Rightarrow> string" where
  "hex2 b = [digit_char True (unat b div 16), digit_char True (unat b mod 16)]"

lemma hex_digits: "fmt_int True 2 None [] (digit_string True 16 (unat (b :: u8))) = hex2 b"
proof (cases "unat b < 16")
  case True
  have "char_of (48 :: nat) = CHR ''0''" by code_simp
  with True show ?thesis by (simp add: fmt_int_def pad_left_def digit_string_less hex2_def digit_char_def)
next
  case False
  have "unat b div 16 < 16" using u8_less [of b] by linarith
  with False show ?thesis by (simp add: fmt_int_def pad_left_def digit_string_ge digit_string_less hex2_def)
qed

lemma format_hex2:
  "c_format ''%02X'' [of_u (b :: u8)] = hex2 b" "c_format ''%02X '' [of_u b] = hex2 b @ '' ''"
  by (simp_all add: c_format_def fmt_conv_def nat_uint_eq hex_digits [unfolded numeral_2_eq_2])

section \<open>Eight digits for four bytes\<close>

fun hex_fixed :: "nat \<Rightarrow> nat \<Rightarrow> string" where
  "hex_fixed 0 n = []"
| "hex_fixed (Suc k) n = hex_fixed k (n div 16) @ [digit_char True (n mod 16)]"

lemma length_hex_fixed [simp]: "length (hex_fixed k n) = k"
  by (induction k arbitrary: n) simp_all

lemma hex_fixed_zero: "hex_fixed k 0 = replicate k CHR ''0''"
proof (induction k)
  case (Suc k)
  have "char_of (48 :: nat) = CHR ''0''" by code_simp
  with Suc show ?case by (simp add: digit_char_def replicate_append_same)
qed simp

lemma pad_left_hex: "n < 16 ^ k \<Longrightarrow> 0 < k \<Longrightarrow> pad_left CHR ''0'' k (digit_string True 16 n) = hex_fixed k n"
proof (induction k arbitrary: n)
  case (Suc k)
  show ?case
  proof (cases "n < 16")
    case True
    then show ?thesis by (simp add: digit_string_less pad_left_def hex_fixed_zero)
  next
    case False
    then have "0 < k" and "n div 16 < 16 ^ k" using Suc.prems by (cases k; simp add: div_less_iff_less_mult mult.commute)+
    then show ?thesis using Suc.IH [of "n div 16"] False by (simp add: digit_string_ge pad_left_def)
  qed
qed simp

lemma hex_fixed_bytes: "hex_fixed (2 * k) n = concat (map hex2 (rev (nat_le k n)))"
proof (induction k arbitrary: n)
  case (Suc k)
  have "n mod 256 = 16 * (n div 16 mod 16) + n mod 16" using mod_mult2_eq [of n 16 16] by simp
  then have "n mod 256 div 16 = n div 16 mod 16" and "n mod 256 mod 16 = n mod 16" by simp_all
  with Suc show ?case by (simp add: hex2_def unat_of_nat div_mult2_eq [symmetric])
qed simp

lemma format_hex8: "c_format ''%08X'' [of_u (w :: u32)] = concat (map hex2 (enc Big w))"
proof -
  have "unat w < 16 ^ 8" using unsigned_less [of w, where 'a = nat] by simp
  then have "pad_left CHR ''0'' 8 (digit_string True 16 (unat w)) = hex_fixed (2 * 4) (unat w)"
    using pad_left_hex [of "unat w" 8] by simp
  then show ?thesis
    unfolding hex_fixed_bytes by (simp add: c_format_def fmt_conv_def nat_uint_eq fmt_int_def enc_def)
qed

section \<open>Reading a dump\<close>

definition blank :: "char \<Rightarrow> bool" where
  "blank c \<longleftrightarrow> c = CHR '' '' \<or> c = CHR 0x0A"

fun hex_bytes :: "string \<Rightarrow> bytes" where
  "hex_bytes [] = []"
| "hex_bytes [c] = []"
| "hex_bytes (c # d # cs) =
     (if blank c then hex_bytes (d # cs)
      else of_nat (16 * digit_val c + digit_val d) # hex_bytes cs)"

lemma hex_digit_not_blank: "d < 16 \<Longrightarrow> \<not> blank (digit_char True d)"
proof -
  assume d: "d < 16"
  have "of_char (digit_char True d) \<noteq> (32::nat) \<and> of_char (digit_char True d) \<noteq> (10::nat)"
    using d by (simp add: digit_char_def of_char_of)
  then show ?thesis by (auto simp: blank_def)
qed

lemma hex_bytes_hex2 [simp]: "hex_bytes (hex2 b @ s) = b # hex_bytes s"
proof -
  have d: "unat b div 16 < 16" using u8_less [of b] by linarith
  have "16 * (unat b div 16) + unat b mod 16 = unat b" by simp
  then show ?thesis
    using hex_digit_not_blank [OF d] d
    by (simp add: hex2_def digit_val_digit_char)
qed

lemma hex_bytes_blank [simp]: "blank c \<Longrightarrow> hex_bytes (c # s) = hex_bytes s"
  by (cases s) auto

lemma hex_bytes_blanks: "list_all blank pre \<Longrightarrow> hex_bytes (pre @ s) = hex_bytes s"
  by (induction pre) auto

lemma hex_bytes_pairs: "hex_bytes (concat (map hex2 bs) @ s) = bs @ hex_bytes s"
  by (induction bs) simp_all

definition dumped :: "out list \<Rightarrow> bytes" where
  "dumped outs = hex_bytes (concat (map render outs))"

lemma dumped_spaced: "dumped (map (\<lambda>b. Printf ''%02X '' [of_u b]) bs) = (bs :: bytes)"
  by (induction bs) (simp_all add: dumped_def format_hex2 blank_def)

end
