(* ===== verification/IpHeader.thy ===== *)
theory IpHeader
  imports Checksum HexDump
begin

text \<open>
  The IPv4 header parser of coding-problems/04_ip_header_parser.c: the header structure and
  its layout, that file's checksum and its validation, the dotted-decimal conversion, the
  parser with its early returns and its report, the sample packet and the demonstration.

  A packet is the object behind the pointer. The parser returns its output calls together
  with the packet, which \<open>validate_checksum\<close> writes to.
\<close>

section \<open>The code\<close>

record ip_header =
  version_ihl :: u8
  tos :: u8
  total_length :: u16
  identification :: u16
  flags_fragment :: u16
  ttl :: u8
  ip_protocol :: u8
  ip_checksum :: u16
  source_ip :: u32
  dest_ip :: u32

text \<open>The layout of the structure: every field is aligned, there is no padding.\<close>

definition ip_header_bytes :: "endian \<Rightarrow> ip_header \<Rightarrow> bytes" where
  "ip_header_bytes e h =
     [version_ihl h, tos h] @ enc e (total_length h) @ enc e (identification h) @
     enc e (flags_fragment h) @ [ttl h, ip_protocol h] @ enc e (ip_checksum h) @
     enc e (source_ip h) @ enc e (dest_ip h)"

definition ip_calculate_checksum :: "endian \<Rightarrow> bytes \<Rightarrow> int \<Rightarrow> u16 option" where
  "ip_calculate_checksum e data len = do {
     acc \<leftarrow> sum_words e data 0 len 0;
     s \<leftarrow> add_tail data acc;
     Some (ucast (NOT (fold_sum s))) }"

definition validate_checksum :: "endian \<Rightarrow> bytes \<Rightarrow> (bool \<times> bytes) option" where
  "validate_checksum e header = do {
     original_checksum \<leftarrow> load16 e header 10;
     header \<leftarrow> store_word e header 10 (0 :: u16);
     calculated \<leftarrow> ip_calculate_checksum e header 20;
     header \<leftarrow> store_word e header 10 original_checksum;
     Some (calculated = original_checksum, header) }"

definition ip_to_string :: "u32 \<Rightarrow> bytes \<Rightarrow> bytes option" where
  "ip_to_string ip buffer =
     sprintf buffer ''%d.%d.%d.%d''
       [of_u (ip AND 0xFF), of_u (drop_bit 8 ip AND 0xFF),
        of_u (drop_bit 16 ip AND 0xFF), of_u (drop_bit 24 ip AND 0xFF)]"

definition tos_output :: "u8 \<Rightarrow> out list" where
  "tos_output t =
     [Printf (nl @ ''Type of Service: 0x%02X'' @ nl) [of_u t],
      Printf (''   |-Precedence: %d'' @ nl) [of_u (drop_bit 5 t AND 0x07)],
      Printf (''   |-Delay: %s'' @ nl) [CStr (if t AND 0x10 \<noteq> 0 then ''Low'' else ''Normal'')],
      Printf (''   |-Throughput: %s'' @ nl) [CStr (if t AND 0x08 \<noteq> 0 then ''High'' else ''Normal'')],
      Printf (''   |-Reliability: %s'' @ nl) [CStr (if t AND 0x04 \<noteq> 0 then ''High'' else ''Normal'')]]"

definition flags_output :: "u16 \<Rightarrow> out list" where
  "flags_output flags_frag = (
     let flags = ucast (drop_bit 13 flags_frag AND 0x07) :: u8;
         fragment_offset = flags_frag AND 0x1FFF
     in [Printf (nl @ ''Flags: 0x%X'' @ nl) [of_u flags],
         Printf (''   |-Reserved: %d'' @ nl) [of_u (drop_bit 2 flags AND 0x01)],
         Printf (''   |-Don'' @ [CHR 0x27] @ ''t Fragment (DF): %d'' @ nl) [of_u (drop_bit 1 flags AND 0x01)],
         Printf (''   |-More Fragments (MF): %d'' @ nl) [of_u (flags AND 0x01)],
         Printf (''Fragment Offset: %d (%d bytes)'' @ nl)
           [of_u fragment_offset, CInt (uint fragment_offset * 8)]])"

definition protocol_name :: "u8 \<Rightarrow> string" where
  "protocol_name p =
     (if p = 1 then ''(ICMP)'' else if p = 6 then ''(TCP)'' else if p = 17 then ''(UDP)''
      else if p = 50 then ''(ESP - IPsec)'' else if p = 51 then ''(AH - IPsec)''
      else ''(Other)'') @ nl"

fun dump_options :: "bytes \<Rightarrow> nat \<Rightarrow> nat \<Rightarrow> out list option" where
  "dump_options packet off 0 = Some []"
| "dump_options packet off (Suc n) = do {
     b \<leftarrow> load8 packet off;
     rest \<leftarrow> dump_options packet (off + 1) n;
     Some (Printf ''%02X '' [of_u b] # rest) }"

text \<open>
  The report on a header that passed the checks. The two local arrays of 16 bytes start
  with arbitrary contents in C; they are read back only up to the terminator written by
  \<open>ip_to_string\<close>.
\<close>

definition print_ip_fields :: "endian \<Rightarrow> bytes \<Rightarrow> u8 \<Rightarrow> u8 \<Rightarrow> u8 \<Rightarrow> (out list \<times> bytes) option" where
  "print_ip_fields e packet version ihl header_length = do {
     t \<leftarrow> load8 packet 1;
     w \<leftarrow> load16 e packet 2;
     let total_len = ntoh e w;
     ident \<leftarrow> load16 e packet 4;
     ff \<leftarrow> load16 e packet 6;
     let flags_frag = ntoh e ff;
     hops \<leftarrow> load8 packet 8;
     proto \<leftarrow> load8 packet 9;
     ck \<leftarrow> load16 e packet 10;
     (ok, packet) \<leftarrow> validate_checksum e packet;
     src \<leftarrow> load32 e packet 12;
     dst \<leftarrow> load32 e packet 16;
     src_buf \<leftarrow> ip_to_string src (replicate 16 0);
     dst_buf \<leftarrow> ip_to_string dst (replicate 16 0);
     src_str \<leftarrow> c_string src_buf;
     dst_str \<leftarrow> c_string dst_buf;
     options \<leftarrow>
       (if ihl > 5 then do {
          let options_length = unat header_length - 20;
          shown \<leftarrow> dump_options packet 20 options_length;
          Some ([Printf (nl @ ''IP Options Present: %d bytes'' @ nl) [CInt (int options_length)],
                 Printf ''Options Data: '' []] @ shown @ [Printf nl []]) }
        else Some []);
     Some
       ([Printf (''['' @ check_mark @ ''] Version: %d (IPv4)'' @ nl) [of_u version],
         Printf (''['' @ check_mark @ ''] IHL: %d (Header Length: %d bytes)'' @ nl)
           [of_u ihl, of_u header_length]] @
        tos_output t @
        [Printf (nl @ ''Total Length: %d bytes'' @ nl) [of_u total_len],
         Printf (''Payload Length: %d bytes'' @ nl) [CInt (uint total_len - uint header_length)],
         Printf (nl @ ''Identification: 0x%04X (%d)'' @ nl) [of_u (ntoh e ident), of_u (ntoh e ident)]] @
        flags_output flags_frag @
        [Printf (nl @ ''Time To Live (TTL): %d'' @ nl) [of_u hops],
         Printf (nl @ ''Protocol: %d '') [of_u proto],
         Printf (protocol_name proto) [],
         Printf (nl @ ''Header Checksum: 0x%04X'' @ nl) [of_u (ntoh e ck)],
         (if ok then Printf (''['' @ check_mark @ ''] Checksum is VALID'' @ nl) []
          else Printf (''['' @ ballot_x @ ''] Checksum is INVALID'' @ nl) []),
         Printf (nl @ ''Source IP: %s'' @ nl) [CStr (string_of src_str)],
         Printf (''Destination IP: %s'' @ nl) [CStr (string_of dst_str)]] @
        options @
        [Printf (nl @ ''========================================'' @ nl) []], packet) }"

definition ip_banner :: out where
  "ip_banner = Printf (nl @ ''========== IP HEADER ANALYSIS =========='' @ nl @ nl) []"

definition parse_ip_header :: "endian \<Rightarrow> bytes \<Rightarrow> int \<Rightarrow> (out list \<times> bytes) option" where
  "parse_ip_header e packet packet_length = do {
     vi \<leftarrow> load8 packet 0;
     let version = drop_bit 4 vi AND 0x0F;
     let ihl = vi AND 0x0F;
     let header_length = ihl * 4;
     if version \<noteq> 4 then
       Some ([ip_banner, Printf (''[ERROR] Invalid IP version: %d (expected 4)'' @ nl) [of_u version]], packet)
     else if ihl < 5 then
       Some ([ip_banner, Printf (''[ERROR] Invalid IHL: %d (minimum is 5)'' @ nl) [of_u ihl]], packet)
     else if uint header_length > packet_length then
       Some ([ip_banner, Printf (''[ERROR] Header length (%d) exceeds packet length (%d)'' @ nl)
                [of_u header_length, CInt packet_length]], packet)
     else do {
       (shown, packet) \<leftarrow> print_ip_fields e packet version ihl header_length;
       Some (ip_banner # shown, packet) } }"

definition create_sample_packet :: "endian \<Rightarrow> bytes \<Rightarrow> bytes option" where
  "create_sample_packet e packet = do {
     packet \<leftarrow> store8 packet 0 0x45;
     packet \<leftarrow> store8 packet 1 0x00;
     packet \<leftarrow> store_word e packet 2 (hton e (60 :: u16));
     packet \<leftarrow> store_word e packet 4 (hton e (12345 :: u16));
     packet \<leftarrow> store_word e packet 6 (hton e (0x4000 :: u16));
     packet \<leftarrow> store8 packet 8 64;
     packet \<leftarrow> store8 packet 9 6;
     packet \<leftarrow> store_word e packet 12 (0x0100007F :: u32);
     packet \<leftarrow> store_word e packet 16 (0x08080808 :: u32);
     packet \<leftarrow> store_word e packet 10 (0 :: u16);
     ck \<leftarrow> ip_calculate_checksum e packet 20;
     packet \<leftarrow> store_word e packet 10 ck;
     memset packet 20 0xAB 40 }"

text \<open>\<open>main\<close>, on the 100 uninitialised bytes of its array.\<close>

definition ip_main :: "endian \<Rightarrow> bytes \<Rightarrow> (out list \<times> int) option" where
  "ip_main e packet = do {
     packet \<leftarrow> create_sample_packet e packet;
     (out1, packet) \<leftarrow> parse_ip_header e packet 60;
     packet \<leftarrow> store_word e packet 10 (hton e (0x1234 :: u16));
     (out2, packet) \<leftarrow> parse_ip_header e packet 60;
     Some ([Printf (''IP Header Parser and Validator'' @ nl) [],
            Printf (''==============================='' @ nl) [],
            Printf (nl @ ''[*] Created sample IP packet'' @ nl) []] @ out1 @
           [Printf (nl @ nl @ ''[*] Testing with CORRUPTED checksum...'' @ nl) []] @ out2, 0) }"

section \<open>The header as a view of memory\<close>

named_theorems ip_view \<open>field access through the layout of the header\<close>

lemma length_ip_header_bytes [simp]: "length (ip_header_bytes e h) = 20"
  by (simp add: ip_header_bytes_def)

lemma ip_loads [ip_view]:
  "load8 (ip_header_bytes e h @ rest) 0 = Some (version_ihl h)"
  "load8 (ip_header_bytes e h @ rest) (Suc 0) = Some (tos h)"
  "load16 e (ip_header_bytes e h @ rest) 2 = Some (total_length h)"
  "load16 e (ip_header_bytes e h @ rest) 4 = Some (identification h)"
  "load16 e (ip_header_bytes e h @ rest) 6 = Some (flags_fragment h)"
  "load8 (ip_header_bytes e h @ rest) 8 = Some (ttl h)"
  "load8 (ip_header_bytes e h @ rest) 9 = Some (ip_protocol h)"
  "load16 e (ip_header_bytes e h @ rest) 10 = Some (ip_checksum h)"
  "load32 e (ip_header_bytes e h @ rest) 12 = Some (source_ip h)"
  "load32 e (ip_header_bytes e h @ rest) 16 = Some (dest_ip h)"
  by (simp_all add: load_defs u16.load_Some_iff u32.load_Some_iff load8_def ip_header_bytes_def nth_append)

lemma ip_stores [ip_view]:
  "store8 (ip_header_bytes e h @ rest) 0 b = Some (ip_header_bytes e (h\<lparr>version_ihl := b\<rparr>) @ rest)"
  "store8 (ip_header_bytes e h @ rest) (Suc 0) b = Some (ip_header_bytes e (h\<lparr>tos := b\<rparr>) @ rest)"
  "store_word e (ip_header_bytes e h @ rest) 2 w = Some (ip_header_bytes e (h\<lparr>total_length := w\<rparr>) @ rest)"
  "store_word e (ip_header_bytes e h @ rest) 4 w = Some (ip_header_bytes e (h\<lparr>identification := w\<rparr>) @ rest)"
  "store_word e (ip_header_bytes e h @ rest) 6 w = Some (ip_header_bytes e (h\<lparr>flags_fragment := w\<rparr>) @ rest)"
  "store8 (ip_header_bytes e h @ rest) 8 b = Some (ip_header_bytes e (h\<lparr>ttl := b\<rparr>) @ rest)"
  "store8 (ip_header_bytes e h @ rest) 9 b = Some (ip_header_bytes e (h\<lparr>ip_protocol := b\<rparr>) @ rest)"
  "store_word e (ip_header_bytes e h @ rest) 10 w = Some (ip_header_bytes e (h\<lparr>ip_checksum := w\<rparr>) @ rest)"
  "store_word e (ip_header_bytes e h @ rest) 12 a = Some (ip_header_bytes e (h\<lparr>source_ip := a\<rparr>) @ rest)"
  "store_word e (ip_header_bytes e h @ rest) 16 a = Some (ip_header_bytes e (h\<lparr>dest_ip := a\<rparr>) @ rest)"
  by (simp_all add: store8_def store_word_def write_bytes_Some_iff ip_header_bytes_def)

definition ip_header_at :: "endian \<Rightarrow> bytes \<Rightarrow> ip_header" where
  "ip_header_at e p =
     \<lparr>version_ihl = p ! 0, tos = p ! 1, total_length = dec e [p ! 2, p ! 3],
      identification = dec e [p ! 4, p ! 5], flags_fragment = dec e [p ! 6, p ! 7],
      ttl = p ! 8, ip_protocol = p ! 9, ip_checksum = dec e [p ! 10, p ! 11],
      source_ip = dec e [p ! 12, p ! 13, p ! 14, p ! 15],
      dest_ip = dec e [p ! 16, p ! 17, p ! 18, p ! 19]\<rparr>"

lemma ip_header_view:
  assumes "20 \<le> length p"
  shows "p = ip_header_bytes e (ip_header_at e p) @ drop 20 p"
proof -
  have u: "[0..<20] = [0, 1, 2, 3, 4, 5, 6, 7, 8, 9, 10, 11, 12, 13, 14, 15, 16, 17, 18, 19]"
    by code_simp
  have "take 20 p = map ((!) p) [0..<20]"
    using assms by (intro nth_equalityI) simp_all
  also have "\<dots> = ip_header_bytes e (ip_header_at e p)"
    by (simp add: ip_header_bytes_def ip_header_at_def enc_dec u)
  finally show ?thesis by (metis append_take_drop_id)
qed

lemma ip_header_cases:
  assumes "20 \<le> length p"
  obtains h rest where "p = ip_header_bytes e h @ rest"
  using ip_header_view [OF assms] by blast

section \<open>The checksum of the header\<close>

lemma ip_calculate_checksum_eq: "ip_calculate_checksum = calculate_checksum"
  by (intro ext) (simp add: ip_calculate_checksum_def calculate_checksum_def)

interpretation ck04: inet_checksum e "ip_calculate_checksum e" for e
  unfolding ip_calculate_checksum_eq by (rule ck05.inet_checksum_axioms)

lemma word_sum_header:
  "word_sum e (ip_header_bytes e h) = word_sum e (ip_header_bytes e (h\<lparr>ip_checksum := 0\<rparr>)) + unat (ip_checksum h)"
proof -
  let ?pre = "[version_ihl h, tos h] @ enc e (total_length h) @ enc e (identification h) @
     enc e (flags_fragment h) @ [ttl h, ip_protocol h]"
  let ?post = "enc e (source_ip h) @ enc e (dest_ip h)"
  have h: "ip_header_bytes e (h\<lparr>ip_checksum := c\<rparr>) = ?pre @ enc e c @ ?post" for c
    by (simp add: ip_header_bytes_def)
  have "word_sum e (ip_header_bytes e (h\<lparr>ip_checksum := c\<rparr>)) = word_sum e (?pre @ ?post) + unat c" for c
    unfolding h by (rule word_sum_field) simp
  from this [of 0] this [of "ip_checksum h"] show ?thesis by simp
qed

lemma validate_checksum_view [ip_view]:
  "validate_checksum e (ip_header_bytes e h @ rest) =
     Some (unat (ip_checksum h) = 65535 - oc (word_sum e (ip_header_bytes e (h\<lparr>ip_checksum := 0\<rparr>))),
           ip_header_bytes e h @ rest)"
proof -
  let ?z = "ip_header_bytes e (h\<lparr>ip_checksum := 0\<rparr>)"
  obtain c where c: "ip_calculate_checksum e (?z @ rest) 20 = Some c"
    and u: "unat c = 65535 - oc (word_sum e ?z)"
    using ck04.cks_value [of 20 "?z @ rest" e] by auto
  have "c = ip_checksum h \<longleftrightarrow> unat (ip_checksum h) = 65535 - oc (word_sum e ?z)"
    by (auto simp: word_unat_eq_iff u)
  then show ?thesis
    by (simp add: validate_checksum_def ip_view c)
qed

section \<open>Addresses\<close>

definition ip_octets :: "u32 \<Rightarrow> nat list" where
  "ip_octets ip = [unat (ip AND 0xFF), unat (drop_bit 8 ip AND 0xFF),
                   unat (drop_bit 16 ip AND 0xFF), unat (drop_bit 24 ip AND 0xFF)]"

lemma octet_eq: "unat (drop_bit n ip AND 0xFF) = unat ip div 2 ^ n mod 256" for ip :: u32
  using unat_and_low [of "drop_bit n ip" 8] unat_drop_bit [of n ip]
  by (simp add: mask_eq_exp_minus_1)

lemma octet_0: "unat (ip AND 0xFF) = unat ip mod 256" for ip :: u32
  using octet_eq [of 0 ip] by simp

lemma ip_octets_eq:
  "ip_octets ip = [unat ip mod 256, unat ip div 2 ^ 8 mod 256, unat ip div 2 ^ 16 mod 256,
                   unat ip div 2 ^ 24 mod 256]"
  by (simp only: ip_octets_def octet_0 [of ip] octet_eq [of 8 ip] octet_eq [of 16 ip] octet_eq [of 24 ip])

lemma unat_dec32:
  "unat (dec e [a, b, c, d] :: u32) =
     (case e of Little \<Rightarrow> unat a + 256 * (unat b + 256 * (unat c + 256 * unat d))
      | Big \<Rightarrow> unat d + 256 * (unat c + 256 * (unat b + 256 * unat a)))"
proof -
  have "w + 256 * (x + 256 * (y + 256 * z)) < 4294967296"
    if "w < 256" "x < 256" "y < 256" "z < 256" for w x y z :: nat
    using that by simp
  note this [OF u8_less u8_less u8_less u8_less]
  then show ?thesis
    by (simp add: dec_def unat_of_nat take_bit_eq_mod split: endian.split
        del: of_nat_add of_nat_mult distrib_left_numeral)
qed

lemma octets_of_sum:
  fixes a b c d :: nat
  assumes "a < 256" "b < 256" "c < 256" "d < 256"
  defines "v \<equiv> a + 256 * (b + 256 * (c + 256 * d))"
  shows "v mod 256 = a" "v div 2 ^ 8 mod 256 = b" "v div 2 ^ 16 mod 256 = c" "v div 2 ^ 24 mod 256 = d"
proof -
  have split: "(x + 256 * k) mod 256 = x" "(x + 256 * k) div 256 = k" if "x < 256" for x k :: nat
    using that by simp_all
  have p: "(2::nat) ^ 8 = 256" "(2::nat) ^ 16 = 256 * 256" "(2::nat) ^ 24 = 256 * 256 * 256"
    by simp_all
  note s = split [OF assms(1)] split [OF assms(2)] split [OF assms(3)] mod_less [OF assms(4)]
  show "v mod 256 = a" "v div 2 ^ 8 mod 256 = b" "v div 2 ^ 16 mod 256 = c" "v div 2 ^ 24 mod 256 = d"
    by (simp_all only: v_def p div_mult2_eq s)
qed

lemma ip_octets_dec:
  "ip_octets (dec e [a, b, c, d]) =
     (case e of Little \<Rightarrow> [unat a, unat b, unat c, unat d] | Big \<Rightarrow> [unat d, unat c, unat b, unat a])"
  by (cases e) (simp_all only: ip_octets_eq unat_dec32 endian.case
      octets_of_sum [OF u8_less u8_less u8_less u8_less])

lemma ip_octets_less: "n \<in> set (ip_octets ip) \<Longrightarrow> n < 256"
  by (auto simp: ip_octets_eq)

lemma ip_format:
  "c_format ''%d.%d.%d.%d'' [CInt (int a), CInt (int b), CInt (int c), CInt (int d)] = dotted [a, b, c, d]"
  by (simp add: c_format_def fmt_conv_d dotted_def)

lemma ip_to_string_value:
  assumes "16 \<le> length buf"
  shows "ip_to_string ip buf = write_bytes buf 0 (bytes_of (dotted (ip_octets ip)) @ [0])"
    and "length (dotted (ip_octets ip)) \<le> 15"
proof -
  show "ip_to_string ip buf = write_bytes buf 0 (bytes_of (dotted (ip_octets ip)) @ [0])"
    by (simp only: ip_to_string_def sprintf_def ip_octets_def uint_nat ip_format)
  show "length (dotted (ip_octets ip)) \<le> 15"
    using ip_octets_less [of _ ip] unfolding ip_octets_def by (intro length_dotted) auto
qed

lemma ip_to_string_c_string:
  assumes "16 \<le> length buf"
  shows "\<exists>buf'. ip_to_string ip buf = Some buf' \<and> length buf' = length buf \<and>
           c_string buf' = Some (bytes_of (dotted (ip_octets ip)))"
proof -
  let ?s = "bytes_of (dotted (ip_octets ip))"
  have "0 \<notin> set ?s" by (simp add: zero_not_in_bytes_of ip_octets_def dotted_no_zero)
  then show ?thesis
    using ip_to_string_value [OF assms, of ip] assms
    by (simp add: write_bytes_def c_string_append_zero)
qed

section \<open>The report\<close>

lemma dump_options_total:
  "off + n \<le> length packet \<Longrightarrow>
   dump_options packet off n = Some (map (\<lambda>b. Printf ''%02X '' [of_u b]) (take n (drop off packet)))"
proof (induction n arbitrary: off)
  case (Suc n)
  then have "drop off packet = packet ! off # drop (Suc off) packet"
    by (simp add: Cons_nth_drop_Suc)
  with Suc show ?case by simp
qed simp

definition ip_report :: "endian \<Rightarrow> ip_header \<Rightarrow> u8 \<Rightarrow> u8 \<Rightarrow> u8 \<Rightarrow> bool \<Rightarrow> bytes \<Rightarrow> out list" where
  "ip_report e h version ihl header_length ok options =
     [Printf (''['' @ check_mark @ ''] Version: %d (IPv4)'' @ nl) [of_u version],
      Printf (''['' @ check_mark @ ''] IHL: %d (Header Length: %d bytes)'' @ nl)
        [of_u ihl, of_u header_length]] @
     tos_output (tos h) @
     [Printf (nl @ ''Total Length: %d bytes'' @ nl) [of_u (ntoh e (total_length h))],
      Printf (''Payload Length: %d bytes'' @ nl)
        [CInt (uint (ntoh e (total_length h)) - uint header_length)],
      Printf (nl @ ''Identification: 0x%04X (%d)'' @ nl)
        [of_u (ntoh e (identification h)), of_u (ntoh e (identification h))]] @
     flags_output (ntoh e (flags_fragment h)) @
     [Printf (nl @ ''Time To Live (TTL): %d'' @ nl) [of_u (ttl h)],
      Printf (nl @ ''Protocol: %d '') [of_u (ip_protocol h)],
      Printf (protocol_name (ip_protocol h)) [],
      Printf (nl @ ''Header Checksum: 0x%04X'' @ nl) [of_u (ntoh e (ip_checksum h))],
      (if ok then Printf (''['' @ check_mark @ ''] Checksum is VALID'' @ nl) []
       else Printf (''['' @ ballot_x @ ''] Checksum is INVALID'' @ nl) []),
      Printf (nl @ ''Source IP: %s'' @ nl) [CStr (dotted (ip_octets (source_ip h)))],
      Printf (''Destination IP: %s'' @ nl) [CStr (dotted (ip_octets (dest_ip h)))]] @
     (if ihl > 5 then
        [Printf (nl @ ''IP Options Present: %d bytes'' @ nl) [CInt (int (length options))],
         Printf ''Options Data: '' []] @
        map (\<lambda>b. Printf ''%02X '' [of_u b]) options @ [Printf nl []]
      else []) @
     [Printf (nl @ ''========================================'' @ nl) []]"

lemma print_ip_fields_view:
  assumes "unat header_length \<le> 20 + length rest"
  shows "print_ip_fields e (ip_header_bytes e h @ rest) version ihl header_length =
    Some (ip_report e h version ihl header_length
            (unat (ip_checksum h) = 65535 - oc (word_sum e (ip_header_bytes e (h\<lparr>ip_checksum := 0\<rparr>))))
            (take (unat header_length - 20) rest),
          ip_header_bytes e h @ rest)"
proof -
  obtain b1 where b1: "ip_to_string (source_ip h) (replicate 16 0) = Some b1"
      "c_string b1 = Some (bytes_of (dotted (ip_octets (source_ip h))))"
    using ip_to_string_c_string [of "replicate 16 0"] by force
  obtain b2 where b2: "ip_to_string (dest_ip h) (replicate 16 0) = Some b2"
      "c_string b2 = Some (bytes_of (dotted (ip_octets (dest_ip h))))"
    using ip_to_string_c_string [of "replicate 16 0"] by force
  have o: "dump_options (ip_header_bytes e h @ rest) 20 (unat header_length - 20) =
      Some (map (\<lambda>b. Printf ''%02X '' [of_u b]) (take (unat header_length - 20) rest))"
    using assms by (cases "unat header_length \<le> 20") (simp_all add: dump_options_total)
  have m: "min (length rest) (unat header_length - 20) = unat header_length - 20"
    using assms by simp
  show ?thesis
    unfolding print_ip_fields_def ip_report_def
    by (simp add: ip_view b1 b2 o m string_of_bytes_of Let_def)
qed

definition ip_ok :: "endian \<Rightarrow> ip_header \<Rightarrow> bool" where
  "ip_ok e h \<longleftrightarrow>
     unat (ip_checksum h) = 65535 - oc (word_sum e (ip_header_bytes e (h\<lparr>ip_checksum := 0\<rparr>)))"

lemma header_length_value: "unat ((vi AND 0x0F) * 4 :: u8) = 4 * (unat vi mod 16)" for vi :: u8
proof -
  have "unat (vi AND 0x0F) = unat vi mod 16"
    using unat_and_low [of vi 4] by (simp add: mask_eq_exp_minus_1)
  then show ?thesis by (simp add: unat_word_ariths)
qed

lemma ihl_value: "5 \<le> vi AND 0x0F \<longleftrightarrow> 5 \<le> unat vi mod 16" for vi :: u8
  using unat_and_low [of vi 4] by (simp add: mask_eq_exp_minus_1 word_le_nat_alt)

lemma parse_ip_header_view:
  fixes h :: ip_header
  defines "vi \<equiv> version_ihl h"
  assumes "drop_bit 4 vi AND 0x0F = 4" and "\<not> vi AND 0x0F < 5"
    and "4 * int (unat vi mod 16) \<le> packet_length" and "4 * (unat vi mod 16) \<le> 20 + length rest"
  shows "parse_ip_header e (ip_header_bytes e h @ rest) packet_length =
    Some (ip_banner # ip_report e h 4 (vi AND 0x0F) ((vi AND 0x0F) * 4) (ip_ok e h)
            (take (4 * (unat vi mod 16) - 20) rest),
          ip_header_bytes e h @ rest)"
proof -
  have l: "unat ((vi AND 0x0F) * 4) = 4 * (unat vi mod 16)" by (rule header_length_value)
  then have "uint ((vi AND 0x0F) * 4) = 4 * int (unat vi mod 16)" by (simp only: uint_nat)
  then show ?thesis
    using assms(2-5) print_ip_fields_view [of "(vi AND 0x0F) * 4" rest e h]
    by (simp add: parse_ip_header_def ip_view l Let_def ip_ok_def flip: vi_def)
qed

text \<open>The sample packet, whatever the array held before.\<close>

definition sample_header :: "endian \<Rightarrow> ip_header" where
  "sample_header e =
     \<lparr>version_ihl = 0x45, tos = 0, total_length = hton e 60, identification = hton e 12345,
      flags_fragment = hton e 0x4000, ttl = 64, ip_protocol = 6, ip_checksum = 0,
      source_ip = 0x0100007F, dest_ip = 0x08080808\<rparr>"

lemma ip_ok_iff:
  "ip_ok e h \<longleftrightarrow> ip_calculate_checksum e (ip_header_bytes e (h\<lparr>ip_checksum := 0\<rparr>) @ rest) 20 = Some (ip_checksum h)"
proof -
  obtain c where "ip_calculate_checksum e (ip_header_bytes e (h\<lparr>ip_checksum := 0\<rparr>) @ rest) 20 = Some c"
    and "unat c = 65535 - oc (word_sum e (ip_header_bytes e (h\<lparr>ip_checksum := 0\<rparr>)))"
    using ck04.cks_value [of 20 "ip_header_bytes e (h\<lparr>ip_checksum := 0\<rparr>) @ rest" e] by auto
  then show ?thesis by (auto simp: ip_ok_def word_unat_eq_iff)
qed

lemma sample_packet_view:
  assumes "60 \<le> length p"
  shows "\<exists>c. create_sample_packet e p =
      Some (ip_header_bytes e ((sample_header e)\<lparr>ip_checksum := c\<rparr>) @ replicate 40 0xAB @ drop 60 p) \<and>
      ip_ok e ((sample_header e)\<lparr>ip_checksum := c\<rparr>)"
proof -
  obtain h rest where p: "p = ip_header_bytes e h @ rest"
    using assms by (auto intro: ip_header_cases [of p e])
  have r: "40 \<le> length rest" using assms p by simp
  obtain c where c: "ip_calculate_checksum e (ip_header_bytes e (sample_header e) @ rest) 20 = Some c"
    using ck04.cks_value [of 20 "ip_header_bytes e (sample_header e) @ rest" e] by auto
  have "h\<lparr>version_ihl := 0x45, tos := 0, total_length := hton e 60, identification := hton e 12345,
      flags_fragment := hton e 0x4000, ttl := 64, ip_protocol := 6, source_ip := 0x0100007F,
      dest_ip := 0x08080808, ip_checksum := 0\<rparr> = sample_header e"
    by (simp add: sample_header_def)
  with r c have "create_sample_packet e p =
      Some (ip_header_bytes e ((sample_header e)\<lparr>ip_checksum := c\<rparr>) @ replicate 40 0xAB @ drop 60 p)"
    by (simp add: create_sample_packet_def p ip_view memset_def write_bytes_def)
  moreover have "(sample_header e)\<lparr>ip_checksum := 0\<rparr> = sample_header e"
    by (simp add: sample_header_def)
  ultimately show ?thesis using c by (auto simp: ip_ok_iff [of e _ rest])
qed

section \<open>Properties\<close>



text \<open>C17: Memory safety: on a packet of at least one byte and a length that does not exceed
  it the parser returns without reading or writing outside the packet, on every byte
  sequence, and leaves the packet as it was.\<close>

theorem parse_ip_header_safe:
  assumes "0 < length packet" and "packet_length \<le> int (length packet)"
  shows "\<exists>shown. parse_ip_header e packet packet_length = Some (shown, packet)"
proof -
  let ?vi = "packet ! 0"
  show ?thesis
  proof (cases "drop_bit 4 ?vi AND 0x0F = 4 \<and> \<not> ?vi AND 0x0F < 5 \<and>
      \<not> uint ((?vi AND 0x0F) * 4) > packet_length")
    case False
    then show ?thesis using assms(1)
      by (auto simp: parse_ip_header_def Let_def)
  next
    case True
    have "uint ((?vi AND 0x0F) * 4) = 4 * int (unat ?vi mod 16)"
      using header_length_value [of ?vi] by (simp only: uint_nat)
    with True have n: "4 * int (unat ?vi mod 16) \<le> packet_length" by simp
    moreover have "5 \<le> unat ?vi mod 16" using True ihl_value [of ?vi] by (simp only: not_less simp_thms)
    ultimately have "20 \<le> length packet" using assms(2) by linarith
    then obtain h rest where p: "packet = ip_header_bytes e h @ rest"
      by (rule ip_header_cases)
    have v: "version_ihl h = ?vi" by (simp add: p ip_header_bytes_def)
    have l: "4 * (unat ?vi mod 16) \<le> 20 + length rest"
      using n assms(2) by (simp add: p)
    show ?thesis
      using parse_ip_header_view [of h packet_length rest e] True n l by (simp add: p v [unfolded p])
  qed
qed

theorem parse_ip_header_safe_witness:
  "\<exists>shown. parse_ip_header Big (0x46 # replicate 23 0) 24 = Some (shown, 0x46 # replicate 23 0)"
  by (rule parse_ip_header_safe) simp_all

text \<open>The early returns: a version other than 4, a header length below 5 words and a
  header longer than the packet each stop the parser, in this order, with the banner and
  one error line naming the offending value, before any other field is looked at.\<close>

lemma parse_ip_header_rejects:
  assumes "0 < length packet"
  defines "version \<equiv> drop_bit 4 (packet ! 0) AND 0x0F" and "ihl \<equiv> packet ! 0 AND 0x0F"
  assumes "version \<noteq> 4 \<or> ihl < 5 \<or> packet_length < 4 * uint ihl"
  shows "parse_ip_header e packet packet_length = Some
    ([ip_banner,
      if version \<noteq> 4 then Printf (''[ERROR] Invalid IP version: %d (expected 4)'' @ nl) [of_u version]
      else if ihl < 5 then Printf (''[ERROR] Invalid IHL: %d (minimum is 5)'' @ nl) [of_u ihl]
      else Printf (''[ERROR] Header length (%d) exceeds packet length (%d)'' @ nl)
             [CInt (4 * uint ihl), CInt packet_length]], packet)"
proof -
  have "unat (ihl * 4) = 4 * unat ihl"
    using header_length_value [of "packet ! 0"] unat_and_low [of "packet ! 0" 4]
    by (simp add: ihl_def mask_eq_exp_minus_1)
  then have l: "uint (ihl * 4) = 4 * uint ihl" by (simp add: uint_nat del: of_nat_unat)
  show ?thesis
    using assms(1,4) l unfolding version_def ihl_def by (auto simp: parse_ip_header_def Let_def)
qed

theorem parse_ip_header_rejects_witness:
  "parse_ip_header Little [0x46, 0] 20 = Some
    ([ip_banner,
      if drop_bit 4 ([0x46, 0 :: u8] ! 0) AND 0x0F \<noteq> 4
      then Printf (''[ERROR] Invalid IP version: %d (expected 4)'' @ nl) [of_u (drop_bit 4 ([0x46, 0 :: u8] ! 0) AND 0x0F)]
      else if [0x46, 0 :: u8] ! 0 AND 0x0F < 5
      then Printf (''[ERROR] Invalid IHL: %d (minimum is 5)'' @ nl) [of_u ([0x46, 0 :: u8] ! 0 AND 0x0F)]
      else Printf (''[ERROR] Header length (%d) exceeds packet length (%d)'' @ nl)
             [CInt (4 * uint ([0x46, 0 :: u8] ! 0 AND 0x0F)), CInt 20]], [0x46, 0])"
  by (rule parse_ip_header_rejects) simp_all

text \<open>The version byte is read before any length is checked: on an empty packet of any
  declared length, 0 included, the first access is out of bounds.\<close>

lemma parse_ip_header_reads_empty_packet: "parse_ip_header e [] packet_length = None"
  by (simp add: parse_ip_header_def load8_def)

text \<open>C40: \<open>ip_to_string\<close> on an address loaded from memory: the text fits in 16 bytes with its
  terminator, leaves the rest of the buffer alone, and reads back as the four octets, in
  memory order on a little-endian host and reversed on a big-endian one.\<close>

theorem ip_to_string_roundtrip:
  assumes "16 \<le> length buf"
  shows "\<exists>s buf'. ip_to_string (dec e [a, b, c, d]) buf = Some buf' \<and> length s \<le> 15 \<and>
    c_string buf' = Some (bytes_of s) \<and> drop 16 buf' = drop 16 buf \<and>
    dotted_octets s =
      map unat (case e of Little \<Rightarrow> [a, b, c, d] | Big \<Rightarrow> [d, c, b, a])"
proof -
  let ?ip = "dec e [a, b, c, d]" and ?s = "dotted (ip_octets (dec e [a, b, c, d]))"
  obtain buf' where b: "ip_to_string ?ip buf = Some buf'" "c_string buf' = Some (bytes_of ?s)"
    using ip_to_string_c_string [OF assms] by blast
  moreover have "dotted_octets ?s = map unat (case e of Little \<Rightarrow> [a, b, c, d] | Big \<Rightarrow> [d, c, b, a])"
    by (cases e) (simp_all add: ip_octets_dec dotted_octets_dotted)
  moreover have l: "length ?s \<le> 15" by (rule ip_to_string_value(2) [OF assms])
  moreover have "drop 16 buf' = drop 16 buf"
  proof -
    have "16 - length ?s = Suc (15 - length ?s)" using l by simp
    then show ?thesis
      using b(1) l ip_to_string_value(1) [OF assms, of ?ip] by (auto simp: write_bytes_Some_iff)
  qed
  ultimately show ?thesis by blast
qed

theorem ip_to_string_roundtrip_witness:
  "\<exists>s buf'. ip_to_string (dec Little [127, 0, 0, 1]) (replicate 16 0) = Some buf' \<and> length s \<le> 15 \<and>
    c_string buf' = Some (bytes_of s) \<and> drop 16 buf' = drop 16 (replicate 16 0) \<and>
    dotted_octets s = map unat (case Little of Little \<Rightarrow> [127, 0, 0, 1 :: u8] | Big \<Rightarrow> [1, 0, 0, 127])"
  by (rule ip_to_string_roundtrip) simp

text \<open>Only the 20 fixed bytes are validated: two packets that agree on them are judged
  alike whatever their options, and a correct 24 byte header with one option, whose words
  do sum to 0xFFFF, is reported as invalid.\<close>

lemma validate_checksum_ignores_options:
  assumes "20 \<le> length p" and "20 \<le> length q" and "take 20 p = take 20 q"
  shows "map_option fst (validate_checksum e p) = map_option fst (validate_checksum e q) \<and>
    (let packet = [0x46, 0, 0, 24, 0, 1, 0, 0, 64, 1, 0xD1, 0xDD, 10, 0, 0, 1, 10, 0, 0, 2, 0x94, 4, 0, 0]
     in calculate_checksum e packet 24 = Some 0 \<and> validate_checksum e packet = Some (False, packet))"
proof
  have "p = ip_header_bytes e (ip_header_at e p) @ drop 20 p"
    using assms(1) by (rule ip_header_view)
  moreover have "q = ip_header_bytes e (ip_header_at e q) @ drop 20 q"
    using assms(2) by (rule ip_header_view)
  moreover have "p ! i = q ! i" if "i < 20" for i
    using assms(3) that by (metis nth_take)
  then have "ip_header_at e p = ip_header_at e q" by (simp add: ip_header_at_def)
  ultimately show "map_option fst (validate_checksum e p) = map_option fst (validate_checksum e q)"
    by (metis validate_checksum_view option.simps(9) fst_conv)
  show "let packet = [0x46, 0, 0, 24, 0, 1, 0, 0, 64, 1, 0xD1, 0xDD, 10, 0, 0, 1, 10, 0, 0, 2, 0x94, 4, 0, 0]
     in calculate_checksum e packet 24 = Some 0 \<and> validate_checksum e packet = Some (False, packet)"
    by (cases e) (simp_all add: checksum_eval validate_checksum_def ip_calculate_checksum_def
        store_word_def write_bytes_def)
qed

theorem validate_checksum_ignores_options_witness:
  "map_option fst (validate_checksum Big (replicate 20 1)) =
     map_option fst (validate_checksum Big (replicate 20 1 @ [7])) \<and>
    (let packet = [0x46, 0, 0, 24, 0, 1, 0, 0, 64, 1, 0xD1, 0xDD, 10, 0, 0, 1, 10, 0, 0, 2, 0x94, 4, 0, 0]
     in calculate_checksum Big packet 24 = Some 0 \<and> validate_checksum Big packet = Some (False, packet))"
  by (rule validate_checksum_ignores_options) simp_all

text \<open>An IPv4 packet as it is on the wire, every multi-byte field in network order.\<close>

definition wire_ipv4 ::
    "u8 \<Rightarrow> u8 \<Rightarrow> u16 \<Rightarrow> u16 \<Rightarrow> u16 \<Rightarrow> u8 \<Rightarrow> u8 \<Rightarrow> u16 \<Rightarrow> u32 \<Rightarrow> u32 \<Rightarrow> bytes \<Rightarrow> bytes" where
  "wire_ipv4 vi t tlen idn ff hops proto ck src dst rest =
     [vi, t] @ enc Big tlen @ enc Big idn @ enc Big ff @ [hops, proto] @ enc Big ck @
     enc Big src @ enc Big dst @ rest"

text \<open>The bits of the type of service and of the flags word, read as fields.\<close>

lemma low_bits:
  "w AND 7 = take_bit 3 w" "w AND 0x1FFF = take_bit 13 w" for w :: "'a::len word"
  by (simp_all add: take_bit_eq_mask mask_eq_exp_minus_1)

lemma tos_bits:
  fixes t :: u8
  shows "uint (drop_bit 5 t AND 0x07) = uint t div 32" "t AND 0x10 \<noteq> 0 \<longleftrightarrow> bit t 4" "t AND 0x08 \<noteq> 0 \<longleftrightarrow> bit t 3"
    "t AND 0x04 \<noteq> 0 \<longleftrightarrow> bit t 2"
proof -
  have "uint t div 32 < 8" using uint_lt2p [of t] by simp
  then have "uint t div 32 mod 8 = uint t div 32"
    by (intro mod_pos_pos_trivial) (simp_all add: pos_imp_zdiv_nonneg_iff)
  then show "uint (drop_bit 5 t AND 0x07) = uint t div 32"
    by (simp add: low_bits unsigned_take_bit_eq unsigned_drop_bit_eq drop_bit_eq_div take_bit_eq_mod uint_div_distrib uint_mod_distrib)
  show "t AND 0x10 \<noteq> 0 \<longleftrightarrow> bit t 4" 
    using and_exp_eq_0_iff_not_bit [of t 4] by simp
  show "t AND 0x08 \<noteq> 0 \<longleftrightarrow> bit t 3" 
    using and_exp_eq_0_iff_not_bit [of t 3] by simp
  show "t AND 0x04 \<noteq> 0 \<longleftrightarrow> bit t 2"
    using and_exp_eq_0_iff_not_bit [of t 2] by simp
qed

lemma flag_bits:
  fixes ff :: u16
  shows "uint (ucast (drop_bit 13 ff AND 7) :: u8) = uint ff div 8192" (is ?a)
    and "uint (drop_bit 2 (ucast (drop_bit 13 ff AND 7) :: u8) AND 1) = of_bool (bit ff 15)" (is ?b)
    and "uint (drop_bit (Suc 0) (ucast (drop_bit 13 ff AND 7) :: u8) AND 1) = of_bool (bit ff 14)" (is ?c)
    and "uint ((ucast (drop_bit 13 ff AND 7) :: u8) AND 1) = of_bool (bit ff 13)" (is ?d)
    and "uint (ff AND 0x1FFF) = uint ff mod 8192" (is ?e)
proof -
  have "uint ff div 8192 < 8" using uint_lt2p [of ff] by simp
  then have "uint ff div 8192 mod 8 = uint ff div 8192"
    by (intro mod_pos_pos_trivial) (simp_all add: pos_imp_zdiv_nonneg_iff)
  then show ?a
    by (simp add: low_bits unsigned_take_bit_eq unsigned_drop_bit_eq drop_bit_eq_div take_bit_eq_mod uint_div_distrib uint_mod_distrib unsigned_ucast_eq)
  show ?b by (simp add: and_one_eq mod_2_eq_odd even_drop_bit_iff_not_bit bit_simps)
  show ?c by (simp add: and_one_eq mod_2_eq_odd even_drop_bit_iff_not_bit bit_simps)
  show ?d by (simp add: and_one_eq mod_2_eq_odd bit_simps flip: bit_0)
  show ?e by (simp add: low_bits unsigned_take_bit_eq take_bit_eq_mod uint_mod_distrib)
qed

lemma ip_octets_on_wire:
  "ip_octets (hton e src) = map unat (case e of Little \<Rightarrow> enc Big src | Big \<Rightarrow> rev (enc Big src))"
proof -
  have "length (enc Big src) = Suc (Suc (Suc (Suc 0)))" by simp
  then obtain a b c d where o: "enc Big src = [a, b, c, d]" by (auto simp: length_Suc_conv simp del: length_enc)
  then have "hton e src = dec e [a, b, c, d]" by (simp add: hton_def)
  then show ?thesis by (cases e) (simp_all add: o ip_octets_dec)
qed

text \<open>The text of an address: its four octets, which a little-endian host prints in the order of the
  wire and a big-endian host in the opposite order.\<close>

definition shown_address :: "endian \<Rightarrow> u32 \<Rightarrow> string" where
  "shown_address e src = dotted (map unat (case e of Little \<Rightarrow> enc Big src | Big \<Rightarrow> rev (enc Big src)))"

lemma protocol_lines:
  "''(ICMP)'' @ nl = protocol_name p \<longleftrightarrow> p = 1" "''(TCP)'' @ nl = protocol_name p \<longleftrightarrow> p = 6"
  "''(UDP)'' @ nl = protocol_name p \<longleftrightarrow> p = 17" "''(ESP - IPsec)'' @ nl = protocol_name p \<longleftrightarrow> p = 50"
  "''(AH - IPsec)'' @ nl = protocol_name p \<longleftrightarrow> p = 51" "f \<noteq> CHR ''('' \<Longrightarrow> f # fs \<noteq> protocol_name p"
  by (auto simp: protocol_name_def)

lemma no_option_line: "f \<noteq> CHR ''%'' \<Longrightarrow> printed (f # fs) (map (\<lambda>b. Printf ''%02X '' [of_u b]) opts) = None"
  by (induction opts) auto

text \<open>C16: The report of a packet on the wire, whose multi-byte fields are in network order: for
  every header length and on either host, every line of the report on the 20 fixed bytes, apart
  from the verdict on the checksum, shows the value of the wire: version and header length, the
  type of service with its precedence and its delay, throughput and reliability bits, total and
  payload length, identification, the flags one by one, the fragment offset in units of 8 bytes
  and in bytes, TTL, protocol number with the name of the known protocols, and checksum. The
  octets of the addresses are those of the wire, in reverse order on a big-endian host. The
  packet is left unchanged.\<close>

theorem parse_ip_header_reports_wire_fields:
  assumes packet: "packet = wire_ipv4 vi t tlen idn ff hops proto ck src dst rest"
    and "drop_bit 4 vi AND 0x0F = 4" and "\<not> vi AND 0x0F < 5"
    and "4 * int (unat vi mod 16) \<le> len" and "4 * (unat vi mod 16) \<le> length packet"
  shows "\<exists>shown. parse_ip_header e packet len = Some (shown, packet) \<and>
    printed (''['' @ check_mark @ ''] Version: %d (IPv4)'' @ nl) shown = Some [CInt 4] \<and>
    printed (''['' @ check_mark @ ''] IHL: %d (Header Length: %d bytes)'' @ nl) shown =
      Some [CInt (int (unat vi mod 16)), CInt (4 * int (unat vi mod 16))] \<and>
    printed (nl @ ''Type of Service: 0x%02X'' @ nl) shown = Some [of_u t] \<and>
    printed (''   |-Precedence: %d'' @ nl) shown = Some [CInt (uint t div 32)] \<and>
    printed (''   |-Delay: %s'' @ nl) shown = Some [CStr (if bit t 4 then ''Low'' else ''Normal'')] \<and>
    printed (''   |-Throughput: %s'' @ nl) shown = Some [CStr (if bit t 3 then ''High'' else ''Normal'')] \<and>
    printed (''   |-Reliability: %s'' @ nl) shown = Some [CStr (if bit t 2 then ''High'' else ''Normal'')] \<and>
    printed (nl @ ''Total Length: %d bytes'' @ nl) shown = Some [of_u tlen] \<and>
    printed (''Payload Length: %d bytes'' @ nl) shown = Some [CInt (uint tlen - 4 * int (unat vi mod 16))] \<and>
    printed (nl @ ''Identification: 0x%04X (%d)'' @ nl) shown = Some [of_u idn, of_u idn] \<and>
    printed (nl @ ''Flags: 0x%X'' @ nl) shown = Some [CInt (uint ff div 8192)] \<and>
    printed (''   |-Reserved: %d'' @ nl) shown = Some [CInt (of_bool (bit ff 15))] \<and>
    printed (''   |-Don'' @ [CHR 0x27] @ ''t Fragment (DF): %d'' @ nl) shown = Some [CInt (of_bool (bit ff 14))] \<and>
    printed (''   |-More Fragments (MF): %d'' @ nl) shown = Some [CInt (of_bool (bit ff 13))] \<and>
    printed (''Fragment Offset: %d (%d bytes)'' @ nl) shown =
      Some [CInt (uint ff mod 8192), CInt (8 * (uint ff mod 8192))] \<and>
    printed (nl @ ''Time To Live (TTL): %d'' @ nl) shown = Some [of_u hops] \<and>
    printed (nl @ ''Protocol: %d '') shown = Some [of_u proto] \<and>
    printed (''(ICMP)'' @ nl) shown = (if proto = 1 then Some [] else None) \<and>
    printed (''(TCP)'' @ nl) shown = (if proto = 6 then Some [] else None) \<and>
    printed (''(UDP)'' @ nl) shown = (if proto = 17 then Some [] else None) \<and>
    printed (''(ESP - IPsec)'' @ nl) shown = (if proto = 50 then Some [] else None) \<and>
    printed (''(AH - IPsec)'' @ nl) shown = (if proto = 51 then Some [] else None) \<and>
    printed (nl @ ''Header Checksum: 0x%04X'' @ nl) shown = Some [of_u ck] \<and>
    printed (nl @ ''Source IP: %s'' @ nl) shown = Some [CStr (shown_address e src)] \<and>
    printed (''Destination IP: %s'' @ nl) shown = Some [CStr (shown_address e dst)]"
proof -
  let ?h = "\<lparr>version_ihl = vi, tos = t, total_length = hton e tlen, identification = hton e idn,
      flags_fragment = hton e ff, ttl = hops, ip_protocol = proto, ip_checksum = hton e ck,
      source_ip = hton e src, dest_ip = hton e dst\<rparr>"
  have k: "packet = ip_header_bytes e ?h @ rest"
    by (simp add: packet wire_ipv4_def ip_header_bytes_def enc_hton [where n = 2] enc_hton [where n = 4])
  have n: "ntoh e (hton e (w :: u16)) = w" for w by (rule ntoh_hton [where n = 2]) simp
  have u: "uint (vi AND 0x0F) = int (unat vi mod 16)" "uint ((vi AND 0x0F) * 4) = 4 * int (unat vi mod 16)"
    using unat_and_low [of vi 4] header_length_value [of vi] by (simp_all add: uint_nat mask_eq_exp_minus_1)
  note defs = ip_report_def ip_banner_def tos_output_def flags_output_def u tos_bits flag_bits Let_def n
    ip_octets_on_wire shown_address_def printed_append protocol_lines [simplified append_Cons append_Nil] no_option_line mult.commute [of _ 8]
  show ?thesis
  proof (intro exI conjI)
    show "parse_ip_header e packet len = Some (ip_banner # ip_report e ?h 4 (vi AND 0x0F) ((vi AND 0x0F) * 4) (ip_ok e ?h)
        (take (4 * (unat vi mod 16) - 20) rest), packet)"
      using parse_ip_header_view [of ?h len rest e] assms(2-5) by (simp add: k)
  qed (simp_all add: defs)
qed

theorem parse_ip_header_reports_wire_fields_witness:
  "\<exists>shown. parse_ip_header Little (wire_ipv4 0x45 0x12 60 7 0x4003 64 6 0xABCD 0x0A000001 0x0A000002 []) 20 =
      Some (shown, wire_ipv4 0x45 0x12 60 7 0x4003 64 6 0xABCD 0x0A000001 0x0A000002 []) \<and>
    printed (''   |-Delay: %s'' @ nl) shown = Some [CStr ''Low''] \<and>
    printed (''Payload Length: %d bytes'' @ nl) shown = Some [CInt 40] \<and>
    printed (''Fragment Offset: %d (%d bytes)'' @ nl) shown = Some [CInt 3, CInt 24] \<and>
    printed (nl @ ''Source IP: %s'' @ nl) shown = Some [CStr (shown_address Little 0x0A000001)]"
proof -
  have p: "drop_bit 4 (0x45 :: u8) AND 0x0F = 4" "\<not> (0x45 :: u8) AND 0x0F < 5" "4 * int (unat (0x45 :: u8) mod 16) \<le> 20"
    "4 * (unat (0x45 :: u8) mod 16) \<le> length (wire_ipv4 0x45 0x12 60 7 0x4003 64 6 0xABCD 0x0A000001 0x0A000002 [])"
    by (simp_all add: wire_ipv4_def)
  have "bit (0x12 :: u8) 4" "uint (60 :: u16) - 4 * int (unat (0x45 :: u8) mod 16) = 40" "uint (0x4003 :: u16) mod 8192 = 3"
    by simp_all
  with parse_ip_header_reports_wire_fields [OF refl p, where e = Little] show ?thesis by auto
qed

lemma ip_report_verdict:
  "printed (''['' @ check_mark @ ''] Checksum is VALID'' @ nl) (ip_banner # ip_report e h v i l ok opts) =
     (if ok then Some [] else None)"
  "printed (''['' @ ballot_x @ ''] Checksum is INVALID'' @ nl) (ip_banner # ip_report e h v i l ok opts) =
     (if ok then None else Some [])"
proof -
  have o: "printed (f # fs) (map (\<lambda>b. Printf ''%02X '' [of_u b]) opts) = None" if "f = CHR ''[''" for f fs
    using that by (induction opts) auto
  show "printed (''['' @ check_mark @ ''] Checksum is VALID'' @ nl) (ip_banner # ip_report e h v i l ok opts) =
     (if ok then Some [] else None)"
   "printed (''['' @ ballot_x @ ''] Checksum is INVALID'' @ nl) (ip_banner # ip_report e h v i l ok opts) =
     (if ok then None else Some [])"
    by (simp_all add: ip_report_def ip_banner_def tos_output_def flags_output_def
        protocol_name_def Let_def printed_append o)
qed

lemma sample_checksum_not_1234: "\<not> ip_ok e ((sample_header e)\<lparr>ip_checksum := hton e 0x1234\<rparr>)"
  unfolding ip_ok_iff [of e _ "[]"]
  by (cases e) (simp_all add: sample_header_def ip_header_bytes_def ip_calculate_checksum_eq checksum_eval)

lemma parse_sample_view:
  assumes "h = (sample_header e)\<lparr>ip_checksum := ip_checksum h\<rparr>"
  shows "parse_ip_header e (ip_header_bytes e h @ rest) 60 =
    Some (ip_banner # ip_report e h 4 5 20 (ip_ok e h) [], ip_header_bytes e h @ rest)"
proof -
  have "version_ihl h = 0x45" by (subst assms) (simp add: sample_header_def)
  then show ?thesis using parse_ip_header_view [of h 60 rest e] by simp
qed

text \<open>The demonstration, on either host and whatever its array held: the parser finds
  the checksum of the packet that \<open>create_sample_packet\<close> built valid, and invalid after the
  checksum field is overwritten; the program exits with 0.\<close>

lemma ip_main_verdicts:
  assumes "length packet = 100"
  shows "\<exists>pre out1 mid out2. ip_main e packet = Some (pre @ out1 @ mid @ out2, 0) \<and>
    printed (''['' @ check_mark @ ''] Checksum is VALID'' @ nl) out1 = Some [] \<and>
    printed (''['' @ ballot_x @ ''] Checksum is INVALID'' @ nl) out2 = Some []"
proof -
  obtain c where p: "create_sample_packet e packet =
      Some (ip_header_bytes e ((sample_header e)\<lparr>ip_checksum := c\<rparr>) @ replicate 40 0xAB @ drop 60 packet)"
    and ok: "ip_ok e ((sample_header e)\<lparr>ip_checksum := c\<rparr>)"
    using sample_packet_view [of packet e] assms by auto
  let ?h1 = "(sample_header e)\<lparr>ip_checksum := c\<rparr>"
    and ?h2 = "(sample_header e)\<lparr>ip_checksum := hton e 0x1234\<rparr>"
    and ?rest = "replicate 40 0xAB @ drop 60 packet"
  have "?h1\<lparr>ip_checksum := hton e 0x1234\<rparr> = ?h2" by simp
  then have "\<exists>pre mid. ip_main e packet =
      Some (pre @ (ip_banner # ip_report e ?h1 4 5 20 True []) @ mid @
            (ip_banner # ip_report e ?h2 4 5 20 False []), 0)"
    using parse_sample_view [of ?h1 e ?rest] parse_sample_view [of ?h2 e ?rest]
      ok sample_checksum_not_1234 [of e]
    by (simp add: ip_main_def p ip_view) (metis append_Cons append_Nil)
  moreover have "printed (''['' @ check_mark @ ''] Checksum is VALID'' @ nl)
      (ip_banner # ip_report e ?h1 4 5 20 True []) = Some []"
    by (simp only: ip_report_verdict if_True)
  moreover have "printed (''['' @ ballot_x @ ''] Checksum is INVALID'' @ nl)
      (ip_banner # ip_report e ?h2 4 5 20 False []) = Some []"
    by (simp only: ip_report_verdict if_False)
  ultimately show ?thesis by blast
qed

theorem ip_main_verdicts_witness:
  "\<exists>pre out1 mid out2. ip_main Little (replicate 100 0xCC) = Some (pre @ out1 @ mid @ out2, 0) \<and>
    printed (''['' @ check_mark @ ''] Checksum is VALID'' @ nl) out1 = Some [] \<and>
    printed (''['' @ ballot_x @ ''] Checksum is INVALID'' @ nl) out2 = Some []"
  by (rule ip_main_verdicts) simp

lemma within_here: "\<exists>before after. xs @ ys = before @ xs @ after"
  by (rule exI [of _ "[]"]) simp

lemma within_later: "\<exists>before after. ys = before @ xs @ after \<Longrightarrow> \<exists>before after. zs @ ys = before @ xs @ after"
  by (metis append_assoc)

text \<open>C18: the options dump reads back. For a packet of version 4 with a header of more than five
  words that lies inside the packet, the parser announces the number of option bytes, and the
  digits it prints next are exactly the bytes between byte 20 and the end of the header.\<close>

theorem ip_options_dump_reads_back:
  assumes "drop_bit 4 (packet ! 0) AND 0x0F = 4" and "n = unat (packet ! 0) mod 16" and "5 < n"
    and "4 * int n \<le> len" and "4 * n \<le> length packet"
  shows "\<exists>before options after. parse_ip_header e packet len =
      Some (before @ [Printf (nl @ ''IP Options Present: %d bytes'' @ nl) [CInt (int (4 * n - 20))],
                      Printf ''Options Data: '' []] @ options @ [Printf nl []] @ after, packet) \<and>
    dumped options = take (4 * n - 20) (drop 20 packet)"
proof -
  have "20 \<le> length packet" using assms by linarith
  then obtain h rest where p: "packet = ip_header_bytes e h @ rest" by (rule ip_header_cases)
  have v: "version_ihl h = packet ! 0" by (simp add: p ip_header_bytes_def)
  let ?options = "take (4 * n - 20) rest"
  have ihl: "\<not> packet ! 0 AND 0x0F < 5" "5 < packet ! 0 AND 0x0F"
    using assms(2,3) unat_and_low [of "packet ! 0" 4] by (simp_all add: mask_eq_exp_minus_1 word_less_nat_alt)
  have len: "length ?options = 4 * n - 20" using assms(5) by (simp add: p)
  let ?shown = "[Printf (nl @ ''IP Options Present: %d bytes'' @ nl) [CInt (int (length ?options))],
      Printf ''Options Data: '' []] @ map (\<lambda>b. Printf ''%02X '' [of_u b]) ?options @ [Printf nl []]"
  have "\<exists>before after. ip_report e h 4 (packet ! 0 AND 0x0F) ((packet ! 0 AND 0x0F) * 4) (ip_ok e h) ?options =
      before @ ?shown @ after"
    unfolding ip_report_def if_P [OF ihl(2)] by (intro within_later within_here)
  then obtain before after where r: "ip_report e h 4 (packet ! 0 AND 0x0F) ((packet ! 0 AND 0x0F) * 4) (ip_ok e h) ?options =
      before @ ?shown @ after"
    by blast
  have "parse_ip_header e packet len = Some (ip_banner # ip_report e h 4 (packet ! 0 AND 0x0F)
      ((packet ! 0 AND 0x0F) * 4) (ip_ok e h) ?options, packet)"
    using parse_ip_header_view [of h len rest e, folded p, unfolded v] assms ihl by (simp add: p)
  then show ?thesis
    unfolding r len
    by (intro exI [of _ "ip_banner # before"] exI [of _ "map (\<lambda>b. Printf ''%02X '' [of_u b]) ?options"] exI [of _ after])
       (simp only: dumped_spaced p append_Cons, simp)
qed

theorem ip_options_dump_reads_back_witness:
  "\<exists>before options after. parse_ip_header Big (0x46 # replicate 19 0 @ [0x94, 4, 0, 0]) 24 =
      Some (before @ [Printf (nl @ ''IP Options Present: %d bytes'' @ nl) [CInt (int (4 * 6 - 20))],
                      Printf ''Options Data: '' []] @ options @ [Printf nl []] @ after,
            0x46 # replicate 19 0 @ [0x94, 4, 0, 0]) \<and>
    dumped options = take (4 * 6 - 20) (drop 20 (0x46 # replicate 19 0 @ [0x94, 4, 0, 0]))"
  by (rule ip_options_dump_reads_back) simp_all

end
