(* ===== verification/Esp.thy ===== *)
theory Esp
  imports HexDump
begin

text \<open>
  The IPsec ESP parser of coding-problems/10_ipsec_esp_parser.c: the security association
  database (a global array and a count), its insertion and lookup, the replay check, the
  names of the algorithms, the packet parser, the sample packets and the demonstration.

  The global state is a record \<open>sad\<close>; \<open>lookup_sa\<close> returns the index of the entry that the
  C function points to. Outside of the array, or past the end of a packet, the result is
  \<open>None\<close>. \<open>rand\<close> is an argument.
\<close>

section \<open>The code\<close>

definition esp_header_t :: layout where
  "esp_header_t = [(''spi'', 4), (''sequence'', 4)]"

lemma esp_header_layout [simp]:
  "sizeof esp_header_t = 8" "offset_of esp_header_t ''spi'' = 0" "offset_of esp_header_t ''sequence'' = 4"
  by (simp_all add: esp_header_t_def sizeof_def)

record security_association =
  sa_spi :: u32
  description :: bytes
  encryption_algo :: u8
  auth_algo :: u8
  seq_number :: u32
  replay_window :: u32

record sad =
  sa_database :: "security_association list"
  sa_count :: nat

text \<open>The globals at program start: zeroed storage for \<open>MAX_SA = 10\<close> entries.\<close>

definition max_sa :: nat where
  "max_sa = 10"

definition initial_sad :: sad where
  "initial_sad =
     \<lparr>sa_database = replicate max_sa
        \<lparr>sa_spi = 0, description = replicate 64 0, encryption_algo = 0, auth_algo = 0,
         seq_number = 0, replay_window = 0\<rparr>,
      sa_count = 0\<rparr>"

definition add_sa :: "u32 \<Rightarrow> string \<Rightarrow> u8 \<Rightarrow> u8 \<Rightarrow> sad \<Rightarrow> (out list \<times> sad) option" where
  "add_sa spi desc enc_algo auth s =
     (if sa_count s \<ge> max_sa then Some ([Printf (''[ERROR] SA database full'' @ nl) []], s)
      else do {
        let i = sa_count s;
        sa \<leftarrow> nth_opt (sa_database s) i;
        d \<leftarrow> strncpy (description sa) (bytes_of desc) 63;
        let sa = sa\<lparr>sa_spi := spi, description := d, encryption_algo := enc_algo,
                    auth_algo := auth, seq_number := 0, replay_window := 64\<rparr>;
        Some ([Printf (''[+] Added SA: SPI=0x%08X, Desc=%s'' @ nl) [of_u spi, CStr desc]],
              s\<lparr>sa_database := (sa_database s)[i := sa], sa_count := i + 1\<rparr>) })"

text \<open>The loop of \<open>lookup_sa\<close> from index \<open>i\<close>, with \<open>n\<close> entries to go; \<open>Some None\<close> is \<open>NULL\<close>.\<close>

fun lookup_from :: "u32 \<Rightarrow> security_association list \<Rightarrow> nat \<Rightarrow> nat \<Rightarrow> nat option option" where
  "lookup_from spi db i 0 = Some None"
| "lookup_from spi db i (Suc n) = do {
     sa \<leftarrow> nth_opt db i;
     if sa_spi sa = spi then Some (Some i) else lookup_from spi db (i + 1) n }"

definition lookup_sa :: "u32 \<Rightarrow> sad \<Rightarrow> nat option option" where
  "lookup_sa spi s = lookup_from spi (sa_database s) 0 (sa_count s)"

definition check_replay ::
    "security_association \<Rightarrow> u32 \<Rightarrow> out list \<times> bool \<times> security_association" where
  "check_replay sa seq =
     (if seq = 0 then ([], False, sa)
      else if seq \<le> seq_number sa then
        (let diff = seq_number sa - seq
         in if diff < replay_window sa
            then ([Printf (''[WARNING] Potential replay attack! Old sequence: %u, current: %u'' @ nl)
                     [of_u seq, of_u (seq_number sa)]], False, sa)
            else ([Printf (''[ERROR] Sequence number too old (outside window)'' @ nl) []], False, sa))
      else ([], True, sa\<lparr>seq_number := seq\<rparr>))"

definition get_encryption_name :: "u8 \<Rightarrow> string" where
  "get_encryption_name algo =
     (if algo = 1 then ''NULL (No Encryption)'' else if algo = 2 then ''DES-CBC''
      else if algo = 3 then ''3DES-CBC'' else if algo = 12 then ''AES-CBC''
      else if algo = 13 then ''AES-CTR'' else if algo = 14 then ''AES-GCM''
      else if algo = 18 then ''ChaCha20-Poly1305'' else ''Unknown'')"

definition get_auth_name :: "u8 \<Rightarrow> string" where
  "get_auth_name algo =
     (if algo = 1 then ''HMAC-MD5'' else if algo = 2 then ''HMAC-SHA1''
      else if algo = 5 then ''HMAC-SHA2-256'' else if algo = 6 then ''HMAC-SHA2-384''
      else if algo = 7 then ''HMAC-SHA2-512'' else ''Unknown'')"

text \<open>The loop \<open>for (i = 0; i < 16 && i < payload_len; i++)\<close>, with \<open>n\<close> iterations to 16.\<close>

fun dump_payload :: "bytes \<Rightarrow> nat \<Rightarrow> nat \<Rightarrow> int \<Rightarrow> nat \<Rightarrow> out list option" where
  "dump_payload packet off i payload_len 0 = Some []"
| "dump_payload packet off i payload_len (Suc n) =
     (if int i < payload_len then do {
        b \<leftarrow> load8 packet (off + i);
        rest \<leftarrow> dump_payload packet off (i + 1) payload_len n;
        Some (Printf ''%02X '' [of_u b] # rest) }
      else Some [])"

definition payload_output :: "bytes \<Rightarrow> int \<Rightarrow> bool \<Rightarrow> out list option" where
  "payload_output packet packet_len is_encrypted = do {
     let payload_offset = sizeof esp_header_t;
     payload_len \<leftarrow> (if packet_len - int payload_offset < - (2 ^ 31) then None
                    else Some (packet_len - int payload_offset));
     shown \<leftarrow>
       (if is_encrypted then do {
          first \<leftarrow> dump_payload packet payload_offset 0 payload_len 16;
          Some ([Printf (nl @ ''Encrypted Payload: %d bytes'' @ nl) [CInt payload_len],
                 Printf ''   First 16 bytes: '' []] @ first @
                [Printf nl [],
                 Printf (nl @ ''[!] Packet is encrypted. Need to decrypt with SA keys.'' @ nl) [],
                 Printf (''    Decryption process:'' @ nl) [],
                 Printf (''    1. Verify ICV (Integrity Check Value)'' @ nl) [],
                 Printf (''    2. Decrypt payload using encryption algorithm'' @ nl) [],
                 Printf (''    3. Remove padding'' @ nl) [],
                 Printf (''    4. Extract inner IP packet'' @ nl) []]) }
        else Some [Printf (nl @ ''[*] Simulating DECRYPTED payload...'' @ nl) [],
                   Printf (''    Decrypted payload would contain inner IP packet'' @ nl) []]);
     Some (shown @ [Printf (nl @ ''========================================'' @ nl) []]) }"

text \<open>
  \<open>packet_len < sizeof(esp_header_t)\<close> compares an \<open>int\<close> with a \<open>size_t\<close>: the length is
  converted to an unsigned 64-bit value first.
\<close>

definition parse_esp_packet :: "endian \<Rightarrow> bytes \<Rightarrow> int \<Rightarrow> bool \<Rightarrow> sad \<Rightarrow> (out list \<times> sad) option" where
  "parse_esp_packet e packet packet_len is_encrypted s =
     (if (word_of_int packet_len :: u64) < of_nat (sizeof esp_header_t)
      then Some ([Printf (''[ERROR] Packet too small for ESP header'' @ nl) []], s)
      else do {
        w0 \<leftarrow> load32 e packet (offset_of esp_header_t ''spi'');
        w1 \<leftarrow> load32 e packet (offset_of esp_header_t ''sequence'');
        let spi = ntoh e w0;
        let seq = ntoh e w1;
        let head = [Printf (nl @ ''========== ESP PACKET ANALYSIS =========='' @ nl @ nl) [],
                    Printf (''SPI (Security Parameter Index): 0x%08X (%u)'' @ nl) [of_u spi, of_u spi],
                    Printf (''Sequence Number: %u'' @ nl) [of_u seq]];
        found \<leftarrow> lookup_sa spi s;
        (case found of
           None \<Rightarrow>
             Some (head @
               [Printf (''[ERROR] No Security Association found for SPI 0x%08X'' @ nl) [of_u spi],
                Printf (''       Packet will be dropped!'' @ nl) []], s)
         | Some i \<Rightarrow> do {
             sa \<leftarrow> nth_opt (sa_database s) i;
             desc \<leftarrow> c_string (description sa);
             let info =
               [Printf (nl @ ''['' @ check_mark @ ''] Security Association Found:'' @ nl) [],
                Printf (''    Description: %s'' @ nl) [CStr (string_of desc)],
                Printf (''    Encryption: %s'' @ nl) [CStr (get_encryption_name (encryption_algo sa))],
                Printf (''    Authentication: %s'' @ nl) [CStr (get_auth_name (auth_algo sa))]];
             let (warn, ok, sa) = check_replay sa seq;
             let s = s\<lparr>sa_database := (sa_database s)[i := sa]\<rparr>;
             if \<not> ok then
               Some (head @ info @ warn @
                 [Printf (''['' @ ballot_x @ ''] Replay check FAILED! Packet dropped.'' @ nl) []], s)
             else do {
               payload \<leftarrow> payload_output packet packet_len is_encrypted;
               Some (head @ info @ warn @
                 [Printf (''['' @ check_mark @ ''] Replay check PASSED'' @ nl) []] @ payload, s) } }) })"

definition create_sample_esp_packet ::
    "'g rand \<Rightarrow> endian \<Rightarrow> bytes \<Rightarrow> u32 \<Rightarrow> u32 \<Rightarrow> 'g \<Rightarrow> (bytes \<times> 'g) option" where
  "create_sample_esp_packet rnd e packet spi seq g = do {
     packet \<leftarrow> store_word e packet (offset_of esp_header_t ''spi'') (hton e spi);
     packet \<leftarrow> store_word e packet (offset_of esp_header_t ''sequence'') (hton e seq);
     fill_random rnd packet (sizeof esp_header_t) (100 - sizeof esp_header_t) g }"

definition explain_modes :: "out list" where
  "explain_modes =
     [Printf (nl @ nl @ ''========== IPsec MODES =========='' @ nl @ nl) [],
      Printf (''TRANSPORT MODE:'' @ nl) [],
      Printf (''---------------'' @ nl) [],
      Printf (''Used for end-to-end communication between two hosts'' @ nl) [],
      Printf (''Only the payload is encrypted, original IP header remains'' @ nl @ nl) [],
      Printf (''Packet Structure:'' @ nl) [],
      Printf (''[ Original IP Header ] [ ESP Header ] [ Encrypted TCP/UDP ] [ ESP Trailer ] [ ICV ]'' @ nl) [],
      Printf (''         '' @ [CHR 0xE2, CHR 0x86, CHR 0x91] @ ''                                    '' @ [CHR 0xE2, CHR 0x86, CHR 0x91] @ nl) [],
      Printf (''    Not encrypted                      Encrypted'' @ nl @ nl) [],
      Printf (''TUNNEL MODE:'' @ nl) [],
      Printf (''------------'' @ nl) [],
      Printf (''Used for site-to-site VPNs (gateway-to-gateway)'' @ nl) [],
      Printf (''Entire original packet is encrypted and new IP header added'' @ nl @ nl) [],
      Printf (''Packet Structure:'' @ nl) [],
      Printf (''[ New IP Header ] [ ESP Header ] [ Encrypted Original IP + Payload ] [ ESP Trailer ] [ ICV ]'' @ nl) [],
      Printf (''                                          '' @ [CHR 0xE2, CHR 0x86, CHR 0x91] @ nl) [],
      Printf (''                               Entire original packet encrypted'' @ nl @ nl) [],
      Printf (''COMPARISON:'' @ nl) [],
      Printf (''-----------'' @ nl) [],
      Printf (''Transport Mode:'' @ nl) [],
      Printf (''  + Less overhead (no extra IP header)'' @ nl) [],
      Printf (''  + Better for host-to-host'' @ nl) [],
      Printf (''  - Source/dest IPs visible'' @ nl) [],
      Printf (''  - Doesn'' @ [CHR 0x27] @ ''t work with NAT easily'' @ nl @ nl) [],
      Printf (''Tunnel Mode:'' @ nl) [],
      Printf (''  + Hides original source/dest'' @ nl) [],
      Printf (''  + Works with NAT'' @ nl) [],
      Printf (''  + Better for VPN gateways'' @ nl) [],
      Printf (''  - More overhead (extra IP header)'' @ nl @ nl) []]"

text \<open>\<open>main\<close>, on its four uninitialised arrays of 100 bytes.\<close>

definition esp_main ::
    "'g rand \<Rightarrow> endian \<Rightarrow> bytes \<Rightarrow> bytes \<Rightarrow> bytes \<Rightarrow> bytes \<Rightarrow> 'g \<Rightarrow> (out list \<times> sad \<times> int) option" where
  "esp_main rnd e packet1 packet2 packet3 packet4 g = do {
     (a1, s) \<leftarrow> add_sa 0x12345678 ''VPN to DataCenter'' 12 5 initial_sad;
     (a2, s) \<leftarrow> add_sa 0xABCDEF00 ''Remote Office Link'' 14 6 s;
     (a3, s) \<leftarrow> add_sa 0x11111111 ''Test Connection'' 3 2 s;
     (packet1, g) \<leftarrow> create_sample_esp_packet rnd e packet1 0x12345678 1001 g;
     (p1, s) \<leftarrow> parse_esp_packet e packet1 100 True s;
     (packet2, g) \<leftarrow> create_sample_esp_packet rnd e packet2 0x12345678 1002 g;
     (p2, s) \<leftarrow> parse_esp_packet e packet2 100 True s;
     (packet3, g) \<leftarrow> create_sample_esp_packet rnd e packet3 0x12345678 1001 g;
     (p3, s) \<leftarrow> parse_esp_packet e packet3 100 True s;
     (packet4, g) \<leftarrow> create_sample_esp_packet rnd e packet4 0xDEADBEEF 500 g;
     (p4, s) \<leftarrow> parse_esp_packet e packet4 100 True s;
     Some ([Printf (''IPsec ESP Packet Parser'' @ nl) [],
            Printf (''======================='' @ nl @ nl) [],
            Printf (''[*] Initializing Security Association Database...'' @ nl @ nl) []] @
           a1 @ a2 @ a3 @ p1 @
           [Printf (nl @ nl @ ''--- Testing Sequence Numbers ---'' @ nl) []] @ p2 @
           [Printf (nl @ nl @ ''--- Testing Replay Attack Detection ---'' @ nl) []] @ p3 @
           [Printf (nl @ nl @ ''--- Testing Unknown SPI ---'' @ nl) []] @ p4 @
           explain_modes, s, 0) }"

section \<open>The database as a table\<close>

text \<open>
  The database promises a table with room for ten entries in which the first entry of a
  key stays: the interface, and the table after a sequence of insertions.
\<close>

locale first_wins_table =
  fixes empty :: 's and add :: "'k \<Rightarrow> 'v \<Rightarrow> 's \<Rightarrow> 's" and lookup :: "'s \<Rightarrow> 'k \<Rightarrow> 'r option"
    and stored :: "'k \<Rightarrow> 'v \<Rightarrow> 'r" and entries :: "'s \<Rightarrow> nat" and capacity :: nat
    and invar :: "'s \<Rightarrow> bool"
  assumes invar_empty: "invar empty"
    and entries_empty: "entries empty = 0"
    and lookup_empty: "lookup empty k = None"
    and invar_add: "invar s \<Longrightarrow> invar (add k v s)"
    and entries_add: "invar s \<Longrightarrow> entries s < capacity \<Longrightarrow> entries (add k v s) = Suc (entries s)"
    and lookup_add: "invar s \<Longrightarrow> entries s < capacity \<Longrightarrow>
      lookup (add k v s) j = (case lookup s j of Some r \<Rightarrow> Some r
                              | None \<Rightarrow> if j = k then Some (stored k v) else None)"
    and add_full: "invar s \<Longrightarrow> capacity \<le> entries s \<Longrightarrow> add k v s = s"
begin

lemma fold_full: "invar s \<Longrightarrow> capacity \<le> entries s \<Longrightarrow> fold (\<lambda>(k, v). add k v) kvs s = s"
  by (induction kvs) (auto simp: add_full)

lemma lookup_fold:
  "invar s \<Longrightarrow> entries s \<le> capacity \<Longrightarrow>
   lookup (fold (\<lambda>(k, v). add k v) kvs s) j =
     (case lookup s j of Some r \<Rightarrow> Some r
      | None \<Rightarrow> map_option (stored j) (map_of (take (capacity - entries s) kvs) j))"
proof (induction kvs arbitrary: s)
  case Nil
  then show ?case by (simp split: option.split)
next
  case (Cons kv kvs)
  obtain k v where kv: "kv = (k, v)" by fastforce
  show ?case
  proof (cases "entries s < capacity")
    case True
    then have n: "capacity - entries s = Suc (capacity - entries (add k v s))"
      using Cons.prems by (simp add: entries_add)
    have "lookup (fold (\<lambda>(k, v). add k v) kvs (add k v s)) j =
      (case lookup (add k v s) j of Some r \<Rightarrow> Some r
       | None \<Rightarrow> map_option (stored j) (map_of (take (capacity - entries (add k v s)) kvs) j))"
      using Cons.prems True by (intro Cons.IH) (auto simp: invar_add entries_add)
    then show ?thesis
      using Cons.prems(1) True by (simp add: kv n lookup_add split: option.split)
  next
    case False
    then have "fold (\<lambda>(k, v). add k v) (kv # kvs) s = s"
      using Cons.prems by (intro fold_full) auto
    with False show ?thesis by (simp split: option.split)
  qed
qed

lemma lookup_inserted:
  "lookup (fold (\<lambda>(k, v). add k v) kvs empty) j = map_option (stored j) (map_of (take capacity kvs) j)"
  using lookup_fold [of empty kvs j] by (simp add: invar_empty entries_empty lookup_empty)

lemma invar_fold: "invar s \<Longrightarrow> invar (fold (\<lambda>(k, v). add k v) kvs s)"
  by (induction kvs arbitrary: s) (auto simp: invar_add)

end

text \<open>The invariant of the globals: every description stays terminated by its last byte.\<close>

definition sa_wf :: "security_association \<Rightarrow> bool" where
  "sa_wf sa \<longleftrightarrow> length (description sa) = 64 \<and> description sa ! 63 = 0"

definition sad_wf :: "sad \<Rightarrow> bool" where
  "sad_wf s \<longleftrightarrow> length (sa_database s) = max_sa \<and> sa_count s \<le> max_sa \<and>
     list_all sa_wf (sa_database s)"

definition sad_find :: "sad \<Rightarrow> u32 \<Rightarrow> security_association option" where
  "sad_find s spi = find (\<lambda>sa. sa_spi sa = spi) (take (sa_count s) (sa_database s))"

definition new_sa :: "u32 \<Rightarrow> string \<times> u8 \<times> u8 \<Rightarrow> security_association" where
  "new_sa spi = (\<lambda>(desc, enc_algo, auth).
     \<lparr>sa_spi = spi, description = take 63 (bytes_of desc) @ replicate (63 - length desc) 0 @ [0],
      encryption_algo = enc_algo, auth_algo = auth, seq_number = 0, replay_window = 64\<rparr>)"

definition install_sa :: "u32 \<Rightarrow> string \<times> u8 \<times> u8 \<Rightarrow> sad \<Rightarrow> sad" where
  "install_sa spi v s = (case v of (desc, enc_algo, auth) \<Rightarrow>
     case add_sa spi desc enc_algo auth s of None \<Rightarrow> s | Some (_, s') \<Rightarrow> s')"

lemma sad_wf_initial: "sad_wf initial_sad"
  by (simp add: sad_wf_def initial_sad_def sa_wf_def max_sa_def list_all_iff)

lemma add_sa_full: "max_sa \<le> sa_count s \<Longrightarrow>
  add_sa spi desc enc_algo auth s = Some ([Printf (''[ERROR] SA database full'' @ nl) []], s)"
  by (simp add: add_sa_def)

lemma strncpy_63:
  assumes "length d = 64" and "d ! 63 = 0"
  shows "strncpy d (bytes_of desc) 63 = Some (take 63 (bytes_of desc) @ replicate (63 - length desc) 0 @ [0])"
proof -
  have "drop 63 d = [0]" using assms by (simp add: Cons_nth_drop_Suc [symmetric])
  then show ?thesis using assms(1) by (simp add: strncpy_def write_bytes_def min_def)
qed

lemma add_sa_room:
  assumes "sad_wf s" and "sa_count s < max_sa"
  shows "add_sa spi desc enc_algo auth s =
    Some ([Printf (''[+] Added SA: SPI=0x%08X, Desc=%s'' @ nl) [of_u spi, CStr desc]],
          s\<lparr>sa_database := (sa_database s)[sa_count s := new_sa spi (desc, enc_algo, auth)],
            sa_count := Suc (sa_count s)\<rparr>)"
proof -
  have l: "sa_count s < length (sa_database s)" using assms by (simp add: sad_wf_def)
  then have "sa_wf (sa_database s ! sa_count s)"
    using assms(1) by (simp add: sad_wf_def list_all_length)
  with assms(2) l show ?thesis
    by (cases "sa_database s ! sa_count s") (simp add: add_sa_def sa_wf_def strncpy_63 new_sa_def Let_def)
qed

lemma sa_wf_new: "sa_wf (new_sa spi v)"
  by (cases v) (auto simp: sa_wf_def new_sa_def nth_append)

lemma sad_wf_update:
  "sad_wf s \<Longrightarrow> sa_wf sa \<Longrightarrow> sad_wf (s\<lparr>sa_database := (sa_database s)[i := sa]\<rparr>)"
  by (auto simp: sad_wf_def list_all_iff dest: set_update_subset_insert [THEN subsetD])

lemma install_sa_wf: "sad_wf s \<Longrightarrow> sad_wf (install_sa spi v s)"
proof (cases v)
  case (fields desc enc_algo auth)
  assume wf: "sad_wf s"
  show ?thesis
  proof (cases "sa_count s < max_sa")
    case True
    then show ?thesis
      using sad_wf_update [OF wf sa_wf_new [of spi v], of "sa_count s"] wf
      by (simp add: install_sa_def fields add_sa_room sad_wf_def)
  qed (use wf in \<open>simp add: install_sa_def fields add_sa_full\<close>)
qed

interpretation sa_table: first_wins_table initial_sad install_sa sad_find new_sa sa_count max_sa sad_wf
proof unfold_locales
  fix s and spi :: u32 and v :: "string \<times> u8 \<times> u8" and j
  assume wf: "sad_wf s" and r: "sa_count s < max_sa"
  obtain d a b where v: "v = (d, a, b)" by (cases v)
  show "sa_count (install_sa spi v s) = Suc (sa_count s)"
    using wf r by (simp add: install_sa_def v add_sa_room)
  have t: "take (Suc (sa_count s)) ((sa_database s)[sa_count s := x]) = take (sa_count s) (sa_database s) @ [x]" for x
    using wf r by (simp add: sad_wf_def take_Suc_conv_app_nth)
  have "sa_spi (new_sa spi v) = spi" by (simp add: new_sa_def v)
  then show "sad_find (install_sa spi v s) j =
      (case sad_find s j of Some r \<Rightarrow> Some r | None \<Rightarrow> if j = spi then Some (new_sa spi v) else None)"
    using wf r by (simp add: install_sa_def v add_sa_room sad_find_def t find_append split: option.split)
next
  fix s and spi :: u32 and v :: "string \<times> u8 \<times> u8"
  assume "sad_wf s" and "max_sa \<le> sa_count s"
  then show "install_sa spi v s = s" by (cases v) (simp add: install_sa_def add_sa_full)
qed (simp_all add: sad_wf_initial install_sa_wf, simp_all add: initial_sad_def sad_find_def)

section \<open>Anti-replay protection\<close>

text \<open>
  The interface of a receiver with a highest accepted number per key: a message is accepted
  exactly when the key is known and the number is above the highest one, which it replaces.
  The messages accepted in a run have strictly increasing numbers per key.
\<close>

fun accepted_by :: "('s \<Rightarrow> 'm \<Rightarrow> bool \<times> 's) \<Rightarrow> 's \<Rightarrow> 'm list \<Rightarrow> 'm list" where
  "accepted_by process s [] = []"
| "accepted_by process s (m # ms) =
     (case process s m of (ok, s') \<Rightarrow> (if ok then [m] else []) @ accepted_by process s' ms)"

locale replay_table =
  fixes process :: "'s \<Rightarrow> 'm \<Rightarrow> bool \<times> 's" and key :: "'m \<Rightarrow> 'k" and num :: "'m \<Rightarrow> u32"
    and high :: "'s \<Rightarrow> 'k \<Rightarrow> u32 option" and invar :: "'s \<Rightarrow> bool" and valid :: "'m \<Rightarrow> bool"
  assumes accept_iff: "invar s \<Longrightarrow> valid m \<Longrightarrow>
      fst (process s m) \<longleftrightarrow> (\<exists>h. high s (key m) = Some h \<and> h < num m)"
    and high_process: "invar s \<Longrightarrow> valid m \<Longrightarrow>
      high (snd (process s m)) = (if fst (process s m) then (high s)(key m \<mapsto> num m) else high s)"
    and invar_process: "invar s \<Longrightarrow> valid m \<Longrightarrow> invar (snd (process s m))"
begin

lemma accepted_above:
  assumes "invar s" and "\<forall>m\<in>set ms. valid m" and "m \<in> set (accepted_by process s ms)"
  shows "\<exists>h. high s (key m) = Some h \<and> h < num m"
  using assms
proof (induction ms arbitrary: s)
  case (Cons x ms)
  obtain ok s' where p: "process s x = (ok, s')" by fastforce
  note laws = accept_iff [of s x] high_process [of s x] invar_process [of s x]
  show ?case
  proof (cases "m \<in> set (accepted_by process s' ms)")
    case True
    then obtain h where "high s' (key m) = Some h" "h < num m"
      using Cons.IH [of s'] Cons.prems laws by (auto simp: p)
    then show ?thesis
      using Cons.prems laws by (auto simp: p split: if_splits)
  next
    case False
    then show ?thesis using Cons.prems laws by (auto simp: p split: if_splits)
  qed
qed simp

lemma accepted_increasing:
  assumes "invar s" and "\<forall>m\<in>set ms. valid m"
  shows "sorted_wrt (<) (map num (filter (\<lambda>m. key m = k) (accepted_by process s ms)))"
  using assms
proof (induction ms arbitrary: s)
  case (Cons x ms)
  obtain ok s' where p: "process s x = (ok, s')" by fastforce
  note laws = accept_iff [of s x] high_process [of s x] invar_process [of s x]
  have "num x < num m" if "ok" "m \<in> set (accepted_by process s' ms)" "key m = key x" for m
    using accepted_above [of s' ms m] that Cons.prems laws by (auto simp: p)
  then show ?case
    using Cons.IH [of s'] Cons.prems laws by (auto simp: p)
qed simp

lemma never_accepted_twice:
  assumes "invar s" and "\<forall>m\<in>set ms. valid m"
  shows "distinct (map (\<lambda>m. (key m, num m)) (accepted_by process s ms))"
  using assms
proof (induction ms arbitrary: s)
  case (Cons x ms)
  obtain ok s' where p: "process s x = (ok, s')" by fastforce
  note laws = accept_iff [of s x] high_process [of s x] invar_process [of s x]
  have "num x < num m" if "ok" "m \<in> set (accepted_by process s' ms)" "key m = key x" for m
    using accepted_above [of s' ms m] that Cons.prems laws by (auto simp: p)
  then show ?case
    using Cons.IH [of s'] Cons.prems laws by (force simp: p)
qed simp

text \<open>The counters only grow, and no key appears or disappears.\<close>

lemma high_grows:
  assumes "invar s" and "\<forall>m\<in>set ms. valid m"
  defines "s' \<equiv> fold (\<lambda>m s. snd (process s m)) ms s"
  shows "invar s' \<and> rel_option (\<le>) (high s k) (high s' k)"
  using assms(1,2) unfolding s'_def
proof (induction ms arbitrary: s)
  case Nil
  then show ?case by (simp add: option.rel_refl)
next
  case (Cons x ms)
  note laws = accept_iff [of s x] high_process [of s x] invar_process [of s x]
  have "rel_option (\<le>) (high s k) (high (snd (process s x)) k)"
    using Cons.prems laws by (cases "high s k") auto
  then show ?case
    using Cons.IH [of "snd (process s x)"] Cons.prems laws by (auto simp: option_rel_Some1 elim!: option.rel_cases)
qed

lemma increasing_accepted:
  assumes "invar s" and "\<forall>m\<in>set ms. valid m \<and> key m = k"
    and "high s k = Some h" and "sorted_wrt (<) (h # map num ms)"
  shows "accepted_by process s ms = ms"
  using assms
proof (induction ms arbitrary: s h)
  case (Cons x ms)
  obtain ok s' where p: "process s x = (ok, s')" by fastforce
  note laws = accept_iff [of s x] high_process [of s x] invar_process [of s x]
  have "ok" and "invar s'" and "high s' k = Some (num x)"
    using Cons.prems laws by (auto simp: p)
  then show ?case using Cons.IH [of s' "num x"] Cons.prems by (simp add: p)
qed simp

end

text \<open>One counter is a table with one key.\<close>

locale replay_counter =
  fixes guard :: "'s \<Rightarrow> u32 \<Rightarrow> bool \<times> 's" and top :: "'s \<Rightarrow> u32"
  assumes guard_iff: "fst (guard s q) \<longleftrightarrow> top s < q"
    and top_guard: "top (snd (guard s q)) = (if top s < q then q else top s)"

sublocale replay_counter \<subseteq> replay_table guard "\<lambda>_. ()" "\<lambda>q. q" "\<lambda>s _. Some (top s)" "\<lambda>_. True" "\<lambda>_. True"
  by unfold_locales (auto simp: guard_iff top_guard)

lemma check_replay_cases:
  obtains "seq \<le> seq_number sa" and "snd (check_replay sa seq) = (False, sa)"
  | "seq_number sa < seq" and "check_replay sa seq = ([], True, sa\<lparr>seq_number := seq\<rparr>)"
proof (cases "seq \<le> seq_number sa")
  case False
  then have "seq_number sa < seq" and "seq \<noteq> 0" by (auto simp: not_le)
  with that(2) False show ?thesis by (simp add: check_replay_def)
qed (use that(1) in \<open>simp add: check_replay_def Let_def\<close>)

interpretation sa_counter: replay_counter "\<lambda>sa seq. snd (check_replay sa seq)" seq_number
proof unfold_locales
  fix sa seq
  show "fst (snd (check_replay sa seq)) \<longleftrightarrow> seq_number sa < seq"
    by (rule check_replay_cases [of seq sa]) auto
  show "seq_number (snd (snd (check_replay sa seq))) = (if seq_number sa < seq then seq else seq_number sa)"
    by (rule check_replay_cases [of seq sa]) auto
qed

section \<open>The parser against its contract\<close>

text \<open>
  What the parser promises: the packet's SPI selects a counter, the packet is accepted when
  its sequence number is above the counter, and then the counter moves to it.
\<close>

datatype verdict = No_SA | Rejected | Accepted

definition esp_contract :: "(u32 \<rightharpoonup> u32) \<Rightarrow> u32 \<Rightarrow> u32 \<Rightarrow> verdict \<times> (u32 \<rightharpoonup> u32)" where
  "esp_contract m spi seq =
     (case m spi of
        None \<Rightarrow> (No_SA, m)
      | Some h \<Rightarrow> if h < seq then (Accepted, m(spi \<mapsto> seq)) else (Rejected, m))"

text \<open>The verdicts, from the worst.\<close>

fun verdict_rank :: "verdict \<Rightarrow> nat" where
  "verdict_rank No_SA = 0" | "verdict_rank Rejected = 1" | "verdict_rank Accepted = 2"

lemma verdict_rank_inject: "verdict_rank v = verdict_rank w \<Longrightarrow> v = w"
  by (cases v; cases w) simp_all

instantiation verdict :: linorder
begin

definition less_eq_verdict :: "verdict \<Rightarrow> verdict \<Rightarrow> bool" where
  "v \<le> w \<longleftrightarrow> verdict_rank v \<le> verdict_rank w"

definition less_verdict :: "verdict \<Rightarrow> verdict \<Rightarrow> bool" where
  "v < w \<longleftrightarrow> verdict_rank v < verdict_rank w"

instance
  by standard (auto simp: less_eq_verdict_def less_verdict_def dest: verdict_rank_inject)

end

lemma esp_contract_antimono:
  "rel_option (\<le>) (m spi) (m' spi) \<Longrightarrow> fst (esp_contract m' spi seq) \<le> fst (esp_contract m spi seq)"
  by (cases "m spi"; cases "m' spi") (auto simp: esp_contract_def less_eq_verdict_def)

definition verdict_of :: "out list \<Rightarrow> verdict" where
  "verdict_of outs =
     (if printed (''['' @ check_mark @ ''] Replay check PASSED'' @ nl) outs = Some [] then Accepted
      else if printed (''['' @ ballot_x @ ''] Replay check FAILED! Packet dropped.'' @ nl) outs = Some []
      then Rejected else No_SA)"

text \<open>All verdicts that an output shows, in their order.\<close>

definition verdict_mark :: "out \<Rightarrow> verdict list" where
  "verdict_mark line =
     (if line = Printf (''['' @ check_mark @ ''] Replay check PASSED'' @ nl) [] then [Accepted]
      else if line = Printf (''['' @ ballot_x @ ''] Replay check FAILED! Packet dropped.'' @ nl) [] then [Rejected]
      else if line = Printf (''       Packet will be dropped!'' @ nl) [] then [No_SA] else [])"

definition verdicts :: "out list \<Rightarrow> verdict list" where
  "verdicts outs = concat (map verdict_mark outs)"

lemma verdicts_simps:
  "verdicts [] = []" "verdicts (x # xs) = verdict_mark x @ verdicts xs" "verdicts (xs @ ys) = verdicts xs @ verdicts ys"
  by (simp_all add: verdicts_def)

definition esp_spi :: "bytes \<Rightarrow> u32" where
  "esp_spi packet = dec Big (take 4 packet)"

definition esp_num :: "bytes \<Rightarrow> u32" where
  "esp_num packet = dec Big (take 4 (drop 4 packet))"

definition counters :: "sad \<Rightarrow> u32 \<rightharpoonup> u32" where
  "counters s = (\<lambda>spi. map_option seq_number (sad_find s spi))"

definition valid_esp :: "bytes \<Rightarrow> bool" where
  "valid_esp packet \<longleftrightarrow> 8 \<le> length packet \<and> length packet < 2 ^ 31"

lemma lookup_from_find:
  "i + n \<le> length db \<Longrightarrow> lookup_from spi db i n = Some (find (\<lambda>j. sa_spi (db ! j) = spi) [i..<i + n])"
  by (induction n arbitrary: i) (auto simp del: upt_Suc simp: upt_conv_Cons)

lemma find_index_take:
  "n \<le> length db \<Longrightarrow> find P (take n db) = map_option ((!) db) (find (\<lambda>j. P (db ! j)) [0..<n])"
proof (induction n)
  case (Suc n)
  then show ?case by (simp add: take_Suc_conv_app_nth find_append split: option.split)
qed simp

lemma lookup_sa_cases:
  assumes "sad_wf s"
  obtains (unknown) "lookup_sa spi s = Some None" and "sad_find s spi = None"
  | (known) i where "lookup_sa spi s = Some (Some i)" and "i < sa_count s"
      and "sad_find s spi = Some (sa_database s ! i)" and "sa_spi (sa_database s ! i) = spi"
proof -
  let ?f = "find (\<lambda>j. sa_spi (sa_database s ! j) = spi) [0..<sa_count s]"
  have n: "sa_count s \<le> length (sa_database s)" using assms by (simp add: sad_wf_def)
  then have l: "lookup_sa spi s = Some ?f"
    using lookup_from_find [of 0 "sa_count s" "sa_database s" spi] by (simp add: lookup_sa_def)
  have f: "sad_find s spi = map_option ((!) (sa_database s)) ?f"
    using n by (simp add: sad_find_def find_index_take)
  show thesis
  proof (cases ?f)
    case None
    then show ?thesis using unknown l f by simp
  next
    case (Some i)
    then have "i < sa_count s" "sa_spi (sa_database s ! i) = spi"
      by (auto simp: find_Some_iff)
    then show ?thesis using known [of i] l f Some by simp
  qed
qed

lemma lookup_sa_find:
  assumes "sad_wf s"
  shows "lookup_sa spi s = Some (find (\<lambda>j. sa_spi (sa_database s ! j) = spi) [0..<sa_count s])"
    and "sad_find s spi = map_option ((!) (sa_database s)) (find (\<lambda>j. sa_spi (sa_database s ! j) = spi) [0..<sa_count s])"
  using assms lookup_from_find [of 0 "sa_count s" "sa_database s" spi]
  by (simp_all add: lookup_sa_def sad_wf_def sad_find_def find_index_take)

lemma counters_update:
  assumes wf: "sad_wf s" and l: "lookup_sa (sa_spi sa) s = Some (Some i)" and same: "sa_spi sa = sa_spi (sa_database s ! i)"
    and wf': "sa_wf sa"
  shows "counters (s\<lparr>sa_database := (sa_database s)[i := sa]\<rparr>) = (counters s)(sa_spi sa \<mapsto> seq_number sa)"
proof
  fix j
  let ?s = "s\<lparr>sa_database := (sa_database s)[i := sa]\<rparr>"
  have i: "i < length (sa_database s)"
    using wf by (rule lookup_sa_cases [of s "sa_spi sa"]) (use l wf in \<open>auto simp: sad_wf_def\<close>)
  then have "sa_spi (sa_database ?s ! k) = sa_spi (sa_database s ! k)" for k
    using same by (cases "k = i") auto
  then have f: "sad_find ?s j = map_option ((!) (sa_database ?s)) (find (\<lambda>k. sa_spi (sa_database s ! k) = j) [0..<sa_count s])"
    using lookup_sa_find(2) [OF sad_wf_update [OF wf wf']] by simp
  show "counters ?s j = ((counters s)(sa_spi sa \<mapsto> seq_number sa)) j"
  proof (cases "j = sa_spi sa")
    case True
    then have "find (\<lambda>k. sa_spi (sa_database s ! k) = j) [0..<sa_count s] = Some i"
      using l lookup_sa_find(1) [OF wf, of j] by simp
    then have "sad_find ?s j = Some sa" unfolding f using i by simp
    then show ?thesis using True by (simp add: counters_def)
  next
    case False
    have "sad_find ?s j = sad_find s j"
    proof (cases "find (\<lambda>k. sa_spi (sa_database s ! k) = j) [0..<sa_count s]")
      case (Some k)
      then have "sa_spi (sa_database s ! k) = j" by (auto simp: find_Some_iff)
      with False same have "k \<noteq> i" by auto
      then show ?thesis unfolding f lookup_sa_find(2) [OF wf] Some by simp
    qed (simp add: f lookup_sa_find(2) [OF wf])
    then show ?thesis using False by (simp add: counters_def)
  qed
qed

lemma esp_loads:
  assumes "8 \<le> length packet"
  shows "load32 e packet 0 = Some (dec e (take 4 packet))"
    and "load32 e packet 4 = Some (dec e (take 4 (drop 4 packet)))"
    and "ntoh e (dec e (take 4 packet)) = esp_spi packet"
    and "ntoh e (dec e (take 4 (drop 4 packet))) = esp_num packet"
  using assms by (simp_all add: load32_def load_obj_def ntoh_dec esp_spi_def esp_num_def)

lemma esp_size_check:
  assumes "8 \<le> n" and "n < 2 ^ 31"
  shows "\<not> (word_of_int n :: u64) < 8"
  using assms by (simp add: word_less_def uint_word_of_int)

lemma dump_payload_total:
  "int off + len \<le> int (length packet) \<Longrightarrow> \<exists>outs. dump_payload packet off i len n = Some outs"
proof (induction n arbitrary: i)
  case (Suc n)
  then obtain rest where "dump_payload packet off (i + 1) len n = Some rest" by blast
  then show ?case using Suc.prems by (auto simp: load8_def)
qed simp

lemma dump_payload_silent: "dump_payload packet off i len n = Some outs \<Longrightarrow> verdicts outs = []"
  by (induction n arbitrary: i outs) (auto simp: verdicts_simps verdict_mark_def split: if_splits bind_splits)

lemma payload_output_total:
  assumes "- 2147483640 \<le> n" and "n \<le> int (length packet)"
  shows "\<exists>outs. payload_output packet n b = Some outs \<and> verdicts outs = []"
proof -
  obtain d where d: "dump_payload packet 8 0 (n - 8) 16 = Some d"
    using dump_payload_total [of 8 "n - 8" packet 0 16] assms by auto
  with assms(1) dump_payload_silent [OF d] show ?thesis
    by (simp add: payload_output_def Let_def verdicts_simps verdict_mark_def)
qed

lemma sa_wf_description: "sa_wf sa \<Longrightarrow> \<exists>d. c_string (description sa) = Some d"
  by (auto simp: sa_wf_def c_string_def) (metis less_numeral_extra nth_mem numeral_less_iff semiring_norm)

lemma sad_find_wf: "sad_wf s \<Longrightarrow> sad_find s spi = Some sa \<Longrightarrow> sa_wf sa \<and> sa_spi sa = spi"
  by (auto simp: sad_find_def sad_wf_def list_all_iff find_Some_iff nth_mem)

lemma parse_unknown:
  assumes "sad_wf s" and "8 \<le> n" "n < 2 ^ 31" "n \<le> int (length packet)" and "sad_find s (esp_spi packet) = None"
  shows "\<exists>outs. parse_esp_packet e packet n b s = Some (outs, s) \<and> verdict_of outs = No_SA \<and>
           verdicts outs = [No_SA]"
proof -
  have l: "lookup_sa (esp_spi packet) s = Some None"
    using assms(1,5) lookup_sa_cases [of s "esp_spi packet"] by (metis option.distinct(1))
  have "8 \<le> length packet" using assms by linarith
  then show ?thesis
    using assms esp_size_check [of n] l
    by (simp add: parse_esp_packet_def esp_loads Let_def verdict_of_def verdicts_simps verdict_mark_def)
qed

lemma parse_known:
  assumes "sad_wf s" and "8 \<le> n" "n < 2 ^ 31" "n \<le> int (length packet)" and "sad_find s (esp_spi packet) = Some sa"
  shows "\<exists>outs i. parse_esp_packet e packet n b s =
           Some (outs, s\<lparr>sa_database := (sa_database s)[i := snd (snd (check_replay sa (esp_num packet)))]\<rparr>) \<and>
         lookup_sa (esp_spi packet) s = Some (Some i) \<and> sa_database s ! i = sa \<and>
         verdict_of outs = (if fst (snd (check_replay sa (esp_num packet))) then Accepted else Rejected) \<and>
         verdicts outs = [verdict_of outs]"
proof -
  obtain i where l: "lookup_sa (esp_spi packet) s = Some (Some i)" and i: "i < sa_count s" and sa: "sa_database s ! i = sa"
    using assms(1,5) lookup_sa_cases [of s "esp_spi packet"] by (metis option.distinct(1) option.inject)
  have i': "i < length (sa_database s)" using assms(1) i by (simp add: sad_wf_def)
  obtain d where d: "c_string (description sa) = Some d"
    using sad_find_wf [OF assms(1,5)] sa_wf_description by blast
  obtain p where p: "payload_output packet n b = Some p" "verdicts p = []"
    using payload_output_total [of n packet b] assms by auto
  obtain warn ok sa' where c: "check_replay sa (esp_num packet) = (warn, ok, sa')" by (cases "check_replay sa (esp_num packet)")
  have w: "printed (''['' @ check_mark @ ''] Replay check PASSED'' @ nl) warn = None"
    "printed (''['' @ ballot_x @ ''] Replay check FAILED! Packet dropped.'' @ nl) warn = None" "verdicts warn = []"
    using c by (auto simp: check_replay_def Let_def verdicts_simps verdict_mark_def split: if_splits)
  have "8 \<le> length packet" using assms by linarith
  then show ?thesis
    using assms esp_size_check [of n] l i' sa d p c w
    by (auto simp: parse_esp_packet_def esp_loads Let_def verdict_of_def printed_append verdicts_simps verdict_mark_def)
qed

lemma parse_esp_refines_aux:
  assumes wf: "sad_wf s" and n: "8 \<le> n" "n < 2 ^ 31" "n \<le> int (length packet)"
  shows "\<exists>outs s'. parse_esp_packet e packet n b s = Some (outs, s') \<and> sad_wf s' \<and>
     verdicts outs = [verdict_of outs] \<and>
     (verdict_of outs, counters s') = esp_contract (counters s) (esp_spi packet) (esp_num packet)"
proof (cases "sad_find s (esp_spi packet)")
  case None
  with parse_unknown [OF wf n, of e b] wf show ?thesis by (auto simp: esp_contract_def counters_def)
next
  case (Some sa)
  let ?sa = "snd (snd (check_replay sa (esp_num packet)))"
  obtain outs i where p: "parse_esp_packet e packet n b s = Some (outs, s\<lparr>sa_database := (sa_database s)[i := ?sa]\<rparr>)"
    and l: "lookup_sa (esp_spi packet) s = Some (Some i)" and sa: "sa_database s ! i = sa"
    and v: "verdict_of outs = (if fst (snd (check_replay sa (esp_num packet))) then Accepted else Rejected)"
    and vs: "verdicts outs = [verdict_of outs]"
    using parse_known [OF wf n Some, of e b] by blast
  have sa_wf: "sa_wf sa" "sa_spi sa = esp_spi packet" using sad_find_wf [OF wf Some] by auto
  have new: "sa_wf ?sa" "sa_spi ?sa = esp_spi packet"
    using sa_wf by (rule_tac check_replay_cases [of "esp_num packet" sa]; auto simp: sa_wf_def)+
  have c: "counters (s\<lparr>sa_database := (sa_database s)[i := ?sa]\<rparr>) = (counters s)(esp_spi packet \<mapsto> seq_number ?sa)"
    using counters_update [OF wf, of ?sa i] l new sa sa_wf by simp
  have "counters s (esp_spi packet) = Some (seq_number sa)" using Some by (simp add: counters_def)
  then have "(verdict_of outs, (counters s)(esp_spi packet \<mapsto> seq_number ?sa)) =
      esp_contract (counters s) (esp_spi packet) (esp_num packet)"
    by (rule_tac check_replay_cases [of "esp_num packet" sa])
       (auto simp: esp_contract_def v fun_upd_idem not_le [symmetric])
  with p c vs sad_wf_update [OF wf new(1)] show ?thesis by auto
qed

text \<open>The parser as a receiver of whole packets, each its own buffer.\<close>

definition esp_receive :: "endian \<Rightarrow> sad \<Rightarrow> bytes \<Rightarrow> bool \<times> sad" where
  "esp_receive e s packet =
     (case parse_esp_packet e packet (int (length packet)) True s of
        None \<Rightarrow> (False, s) | Some (outs, s') \<Rightarrow> (verdict_of outs = Accepted, s'))"

lemma esp_receive_contract:
  assumes "sad_wf s" and "valid_esp packet"
  shows "sad_wf (snd (esp_receive e s packet))"
    and "fst (esp_receive e s packet) \<longleftrightarrow> fst (esp_contract (counters s) (esp_spi packet) (esp_num packet)) = Accepted"
    and "counters (snd (esp_receive e s packet)) = snd (esp_contract (counters s) (esp_spi packet) (esp_num packet))"
proof -
  have n: "8 \<le> int (length packet)" "int (length packet) < 2 ^ 31"
    using assms(2) by (auto simp: valid_esp_def)
  obtain outs s' where p: "parse_esp_packet e packet (int (length packet)) True s = Some (outs, s')"
    and wf: "sad_wf s'" and c: "(verdict_of outs, counters s') = esp_contract (counters s) (esp_spi packet) (esp_num packet)"
    using parse_esp_refines_aux [OF assms(1) n order_refl, of e True] by blast
  show "sad_wf (snd (esp_receive e s packet))" using wf by (simp add: esp_receive_def p)
  show "fst (esp_receive e s packet) \<longleftrightarrow> fst (esp_contract (counters s) (esp_spi packet) (esp_num packet)) = Accepted"
    by (simp add: esp_receive_def p c [symmetric])
  show "counters (snd (esp_receive e s packet)) = snd (esp_contract (counters s) (esp_spi packet) (esp_num packet))"
    by (simp add: esp_receive_def p c [symmetric])
qed

interpretation esp_table: replay_table "esp_receive e" esp_spi esp_num counters sad_wf valid_esp for e
  by unfold_locales (auto simp: esp_receive_contract esp_contract_def split: option.splits)

section \<open>Properties\<close>

text \<open>A sequence of calls of \<open>add_sa\<close>, and the entry that \<open>lookup_sa\<close> points to.\<close>

fun add_all :: "(u32 \<times> string \<times> u8 \<times> u8) list \<Rightarrow> sad \<Rightarrow> sad option" where
  "add_all [] s = Some s"
| "add_all ((spi, desc, enc_algo, auth) # rest) s = do {
     (out, s) \<leftarrow> add_sa spi desc enc_algo auth s;
     add_all rest s }"

definition found_sa :: "u32 \<Rightarrow> sad \<Rightarrow> security_association option option" where
  "found_sa spi s = do {
     found \<leftarrow> lookup_sa spi s;
     (case found of None \<Rightarrow> Some None | Some i \<Rightarrow> map_option Some (nth_opt (sa_database s) i)) }"

lemma add_sa_installs:
  "sad_wf s \<Longrightarrow> \<exists>out. add_sa spi desc enc_algo auth s = Some (out, install_sa spi (desc, enc_algo, auth) s) \<and>
     verdicts out = []"
  by (cases "sa_count s < max_sa")
     (auto simp: install_sa_def add_sa_room add_sa_full verdicts_simps verdict_mark_def)

lemma add_all_fold:
  "sad_wf s \<Longrightarrow> add_all kvs s = Some (fold (\<lambda>(k, v). install_sa k v) kvs s)"
proof (induction kvs arbitrary: s)
  case (Cons kv kvs)
  obtain spi desc enc_algo auth where kv: "kv = (spi, desc, enc_algo, auth)" by (cases kv)
  have "\<exists>out. add_sa spi desc enc_algo auth s = Some (out, install_sa spi (desc, enc_algo, auth) s)"
    using add_sa_installs [OF Cons.prems] by blast
  then show ?case
    using Cons.IH [OF install_sa_wf [OF Cons.prems]] by (auto simp: kv)
qed simp

lemma found_sa_find: "sad_wf s \<Longrightarrow> found_sa spi s = Some (sad_find s spi)"
  by (rule lookup_sa_cases [of s spi]) (auto simp: found_sa_def sad_wf_def)

lemma counters_add_all:
  "counters (fold (\<lambda>(k, v). install_sa k v) kvs initial_sad) spi = map_option (\<lambda>_. 0) (map_of (take max_sa kvs) spi)"
  by (simp add: counters_def sa_table.lookup_inserted option.map_comp comp_def new_sa_def case_prod_beta)

text \<open>The security association database is a table with room for ten entries in which
  the first entry of an SPI stays. After any sequence of \<open>add_sa\<close> from the initial state no
  access was out of bounds, and \<open>lookup_sa\<close> finds for an SPI exactly its first entry among
  the first ten additions, with its description cut to 63 characters, a zero counter and a
  window of 64.\<close>

lemma sa_database_is_table:
  "\<exists>s. add_all kvs initial_sad = Some s \<and>
       found_sa spi s = Some (map_option (new_sa spi) (map_of (take 10 kvs) spi))"
proof -
  let ?s = "fold (\<lambda>(k, v). install_sa k v) kvs initial_sad"
  have "sad_wf ?s" by (intro sa_table.invar_fold sad_wf_initial)
  then have "found_sa spi ?s = Some (map_option (new_sa spi) (map_of (take 10 kvs) spi))"
    by (simp add: found_sa_find sa_table.lookup_inserted max_sa_def)
  then show ?thesis using add_all_fold [OF sad_wf_initial, of kvs] by blast
qed

lemma dump_payload_dumps:
  assumes "int off + len \<le> int (length packet)"
  shows "dump_payload packet off i len n =
    Some (map (\<lambda>b. Printf ''%02X '' [of_u b]) (take n (take (nat len - i) (drop (off + i) packet))))"
proof (induction n arbitrary: i)
  case (Suc n)
  show ?case
  proof (cases "int i < len")
    case True
    then have "off + i < length packet" and "nat len - i = Suc (nat len - (i + 1))" using assms by linarith+
    then show ?thesis using True Suc [of "i + 1"] by (simp add: load8_def Cons_nth_drop_Suc [symmetric])
  qed simp
qed simp

lemma payload_encrypted:
  assumes "dump_payload packet 8 0 (n - 8) 16 = Some first" and "8 \<le> n"
  shows "\<exists>title rest. payload_output packet n True =
    Some ([Printf title [CInt (n - 8)], Printf ''   First 16 bytes: '' []] @ first @ Printf nl [] # rest)"
  using assms by (simp add: payload_output_def Let_def)

lemma parse_accepted:
  assumes "sad_wf s" and n: "8 \<le> n" "n < 2 ^ 31" "n \<le> int (length packet)"
    and a: "fst (esp_contract (counters s) (esp_spi packet) (esp_num packet)) = Accepted"
  shows "\<exists>mid payload s'. payload_output packet n b = Some payload \<and>
    parse_esp_packet e packet n b s = Some (
      [Printf (nl @ ''========== ESP PACKET ANALYSIS =========='' @ nl @ nl) [],
       Printf (''SPI (Security Parameter Index): 0x%08X (%u)'' @ nl) [of_u (esp_spi packet), of_u (esp_spi packet)],
       Printf (''Sequence Number: %u'' @ nl) [of_u (esp_num packet)]] @ mid @ payload, s')"
proof -
  obtain sa where f: "sad_find s (esp_spi packet) = Some sa" and q: "seq_number sa < esp_num packet"
    using a by (auto simp: esp_contract_def counters_def split: option.splits if_splits)
  obtain i where l: "lookup_sa (esp_spi packet) s = Some (Some i)" and i: "i < sa_count s" and sa: "sa_database s ! i = sa"
    using assms(1) f lookup_sa_cases [of s "esp_spi packet"] by (metis option.distinct(1) option.inject)
  have i': "i < length (sa_database s)" using assms(1) i by (simp add: sad_wf_def)
  obtain d where d: "c_string (description sa) = Some d"
    using sad_find_wf [OF assms(1) f] sa_wf_description by blast
  obtain p where p: "payload_output packet n b = Some p"
    using payload_output_total [of n packet b] n by auto
  have c: "check_replay sa (esp_num packet) = ([], True, sa\<lparr>seq_number := esp_num packet\<rparr>)"
    using q by (auto simp: check_replay_def Let_def not_le [symmetric])
  have "8 \<le> length packet" using n by linarith
  then show ?thesis
    using esp_size_check [of n] n l i' sa d p
    by (simp add: c parse_esp_packet_def esp_loads Let_def)
qed

text \<open>C3: \<open>parse_esp_packet\<close> refines its contract. On a database that satisfies the
  invariant and a packet whose length is between 8 and the size of its buffer, the parser
  returns without an access out of bounds, keeps the invariant, and its verdict and the
  counters afterwards are those of the contract: an unknown SPI is dropped, a number not
  above the SPI's counter is rejected, and any other is accepted and becomes the counter.\<close>

theorem parse_esp_refines:
  assumes "sad_wf s" and "8 \<le> n" "n < 2 ^ 31" "n \<le> int (length packet)"
  shows "\<exists>outs s'. parse_esp_packet e packet n b s = Some (outs, s') \<and> sad_wf s' \<and>
     verdicts outs = [verdict_of outs] \<and>
     (verdict_of outs, counters s') = esp_contract (counters s) (esp_spi packet) (esp_num packet)"
  using assms by (rule parse_esp_refines_aux)

definition sample_packet :: "u32 \<Rightarrow> u32 \<Rightarrow> bytes" where
  "sample_packet spi seq = enc Big spi @ enc Big seq @ replicate 4 0xAA"

definition sample_sad :: sad where
  "sample_sad = install_sa 0x12345678 (''VPN'', 12, 5) initial_sad"

lemma sample_sad_wf: "sad_wf sample_sad"
  unfolding sample_sad_def by (intro install_sa_wf sad_wf_initial)

lemma sample_sad_counters: "counters sample_sad = [0x12345678 \<mapsto> 0]"
  using counters_add_all [of "[(0x12345678, ''VPN'', 12, 5)]"]
  by (auto simp: fun_eq_iff sample_sad_def max_sa_def)

lemma sample_packet_fields:
  "length (sample_packet spi seq) = 12" "esp_spi (sample_packet spi seq) = spi" "esp_num (sample_packet spi seq) = seq"
  by (simp_all add: sample_packet_def esp_spi_def esp_num_def dec_enc [where n = 4])

theorem parse_esp_refines_witness:
  "\<exists>outs s'. parse_esp_packet Little (sample_packet 0x12345678 7) 12 True sample_sad = Some (outs, s') \<and>
     sad_wf s' \<and> verdict_of outs = Accepted \<and> counters s' 0x12345678 = Some 7"
  using parse_esp_refines [OF sample_sad_wf, of 12 "sample_packet 0x12345678 7" Little True]
  by (auto simp: sample_packet_fields sample_sad_counters esp_contract_def)

text \<open>No packet is accepted twice. Over any sequence of packets, each at least 8 bytes
  long, from any database that satisfies the invariant, the pairs of SPI and sequence number
  of the accepted packets are distinct.\<close>

lemma esp_never_accepted_twice:
  assumes "sad_wf s" and "\<forall>p\<in>set packets. valid_esp p"
  shows "distinct (map (\<lambda>p. (esp_spi p, esp_num p)) (accepted_by (esp_receive e) s packets))"
  using assms by (rule esp_table.never_accepted_twice)

theorem esp_never_accepted_twice_witness:
  "distinct (map (\<lambda>p. (esp_spi p, esp_num p)) (accepted_by (esp_receive Little) sample_sad
     [sample_packet 0x12345678 7, sample_packet 0x12345678 7, sample_packet 0x12345678 5]))"
  by (rule esp_never_accepted_twice) (simp_all add: sample_sad_wf valid_esp_def sample_packet_fields)

text \<open>The verdict on a packet never improves. Whatever packets come in between, a packet
  that was rejected is rejected again and never accepted later, and one whose SPI was unknown
  stays unknown, with the verdicts ordered unknown, rejected, accepted.\<close>

lemma esp_verdict_never_improves:
  assumes wf: "sad_wf s" and v: "valid_esp p" "\<forall>q\<in>set packets. valid_esp q"
    and before: "parse_esp_packet e p (int (length p)) b s = Some (outs, s1)"
    and after: "parse_esp_packet e p (int (length p)) b (fold (\<lambda>q s. snd (esp_receive e s q)) packets s) = Some (outs', s2)"
  shows "verdict_of outs' \<le> verdict_of outs"
proof -
  let ?s = "fold (\<lambda>q s. snd (esp_receive e s q)) packets s"
  have wf': "sad_wf ?s" and grows: "rel_option (\<le>) (counters s (esp_spi p)) (counters ?s (esp_spi p))"
    using esp_table.high_grows [OF wf v(2), of e "esp_spi p"] by auto
  have n: "8 \<le> int (length p)" "int (length p) < 2 ^ 31" using v(1) by (auto simp: valid_esp_def)
  have "verdict_of outs = fst (esp_contract (counters s) (esp_spi p) (esp_num p))"
    using parse_esp_refines_aux [OF wf n order_refl, of e b] before by (auto dest: arg_cong [of _ _ fst])
  moreover have "verdict_of outs' = fst (esp_contract (counters ?s) (esp_spi p) (esp_num p))"
    using parse_esp_refines_aux [OF wf' n order_refl, of e b] after by (auto dest: arg_cong [of _ _ fst])
  ultimately show ?thesis using esp_contract_antimono [of "counters s" "esp_spi p" "counters ?s", OF grows] by simp
qed

theorem esp_verdict_never_improves_witness:
  "\<exists>outs s1 outs' s2. parse_esp_packet Little (sample_packet 0x12345678 7) 12 True sample_sad = Some (outs, s1) \<and>
     parse_esp_packet Little (sample_packet 0x12345678 7) 12 True (snd (esp_receive Little sample_sad (sample_packet 0x12345678 9))) =
       Some (outs', s2) \<and> verdict_of outs = Accepted \<and> verdict_of outs' \<le> verdict_of outs"
proof -
  let ?p = "sample_packet 0x12345678 7" and ?q = "sample_packet 0x12345678 9"
  have v: "valid_esp ?p" "\<forall>q\<in>set [?q]. valid_esp q" by (simp_all add: valid_esp_def sample_packet_fields)
  have n: "8 \<le> int (length ?p)" "int (length ?p) < 2 ^ 31" by (simp_all add: sample_packet_fields)
  have wf: "sad_wf (snd (esp_receive Little sample_sad ?q))"
    by (rule esp_receive_contract(1) [OF sample_sad_wf]) (simp add: valid_esp_def sample_packet_fields)
  obtain outs s1 where 1: "parse_esp_packet Little ?p (int (length ?p)) True sample_sad = Some (outs, s1)" "verdict_of outs = Accepted"
    using parse_esp_refines_aux [OF sample_sad_wf n order_refl, of Little True]
    by (auto simp: sample_packet_fields sample_sad_counters esp_contract_def)
  obtain outs' s2 where 2: "parse_esp_packet Little ?p (int (length ?p)) True (snd (esp_receive Little sample_sad ?q)) = Some (outs', s2)"
    using parse_esp_refines_aux [OF wf n order_refl, of Little True] by blast
  have "verdict_of outs' \<le> verdict_of outs"
    by (rule esp_verdict_never_improves [OF sample_sad_wf v 1(1), of outs' s2]) (use 2 in simp)
  then show ?thesis using 1 2 by (simp add: sample_packet_fields)
qed

text \<open>Packets in order get through. A sequence of packets of one known SPI whose numbers
  increase strictly from above its counter is accepted as a whole, on both kinds of host.\<close>

lemma esp_in_order_accepted:
  assumes "sad_wf s" and "\<forall>p\<in>set packets. valid_esp p \<and> esp_spi p = spi"
    and "counters s spi = Some h" and "sorted_wrt (<) (h # map esp_num packets)"
  shows "accepted_by (esp_receive e) s packets = packets"
  using assms by (rule esp_table.increasing_accepted)

theorem esp_in_order_accepted_witness:
  "accepted_by (esp_receive Big) sample_sad [sample_packet 0x12345678 7, sample_packet 0x12345678 9] =
     [sample_packet 0x12345678 7, sample_packet 0x12345678 9]"
  by (rule esp_in_order_accepted [where spi = "0x12345678" and h = 0])
     (simp_all add: sample_sad_wf valid_esp_def sample_packet_fields sample_sad_counters)

text \<open>The replay check is a plain counter, and its window has no effect. Whatever the
  value of \<open>replay_window\<close>, \<open>check_replay\<close> accepts exactly the numbers above \<open>seq_number\<close>,
  stores an accepted number and leaves the association unchanged otherwise; a late packet
  inside the window is rejected as well, unlike in the sliding window of the anti-replay
  protection that the file describes.\<close>

lemma check_replay_ignores_window:
  "snd (check_replay (sa\<lparr>replay_window := w\<rparr>) seq) =
     (seq_number sa < seq,
      (sa\<lparr>replay_window := w\<rparr>)\<lparr>seq_number := max (seq_number sa) seq\<rparr>)"
proof (rule check_replay_cases [of seq "sa\<lparr>replay_window := w\<rparr>"])
  assume "seq \<le> seq_number (sa\<lparr>replay_window := w\<rparr>)"
    and "snd (check_replay (sa\<lparr>replay_window := w\<rparr>) seq) = (False, sa\<lparr>replay_window := w\<rparr>)"
  then show ?thesis by (simp add: max_def not_less)
next
  assume "seq_number (sa\<lparr>replay_window := w\<rparr>) < seq"
    and "check_replay (sa\<lparr>replay_window := w\<rparr>) seq = ([], True, sa\<lparr>replay_window := w, seq_number := seq\<rparr>)"
  then show ?thesis by (simp add: max_def)
qed

text \<open>C39: one unauthenticated packet closes an SPI. After a packet with a known SPI, the number
  \<open>0xFFFFFFFF\<close> and any payload, no later packet of that SPI is accepted, since the counter
  moves before any integrity check.\<close>

theorem esp_forged_number_blocks_spi:
  assumes wf: "sad_wf s" and v: "valid_esp forged" "\<forall>p\<in>set packets. valid_esp p"
    and known: "counters s (esp_spi forged) \<noteq> None" and f: "esp_num forged = 0xFFFFFFFF"
  shows "esp_spi forged \<notin> esp_spi ` set (accepted_by (esp_receive e) (snd (esp_receive e s forged)) packets)"
proof
  let ?s = "snd (esp_receive e s forged)"
  assume "esp_spi forged \<in> esp_spi ` set (accepted_by (esp_receive e) ?s packets)"
  then obtain p where p: "p \<in> set (accepted_by (esp_receive e) ?s packets)" and same: "esp_spi p = esp_spi forged" by auto
  have wf': "sad_wf ?s" using wf v(1) by (rule esp_receive_contract(1))
  have le: "h \<le> 0xFFFFFFFF" for h :: u32 using u32_less [of h] by (simp add: word_le_nat_alt)
  have "counters ?s (esp_spi forged) = Some 0xFFFFFFFF"
    using known f le by (auto simp: esp_receive_contract(3) [OF wf v(1)] esp_contract_def not_less antisym split: option.splits)
  moreover obtain h where "counters ?s (esp_spi p) = Some h" "h < esp_num p"
    using esp_table.accepted_above [OF wf' v(2) p] by blast
  ultimately have "0xFFFFFFFF < esp_num p" using same by simp
  with le [of "esp_num p"] show False by simp
qed

theorem esp_forged_number_blocks_spi_witness:
  "0x12345678 \<notin> esp_spi ` set (accepted_by (esp_receive Little)
     (snd (esp_receive Little sample_sad (sample_packet 0x12345678 0xFFFFFFFF))) [sample_packet 0x12345678 8])"
  using esp_forged_number_blocks_spi [of sample_sad "sample_packet 0x12345678 0xFFFFFFFF" "[sample_packet 0x12345678 8]" Little]
  by (simp add: sample_sad_wf valid_esp_def sample_packet_fields sample_sad_counters)

text \<open>The size check converts the length to an unsigned value, so it stops the lengths 0
  to 7 and no negative one: with a negative length the parser reads a buffer of less than 8
  bytes past its end.\<close>

lemma esp_size_check_misses_negative:
  assumes "- (2 ^ 31) \<le> n" and "n < 8" and "length packet < 8"
  shows "parse_esp_packet e packet n b s =
    (if 0 \<le> n then Some ([Printf (''[ERROR] Packet too small for ESP header'' @ nl) []], s) else None)"
proof (cases "0 \<le> n")
  case True
  with assms(2) have "(word_of_int n :: u64) < 8" by (simp add: word_less_def uint_word_of_int)
  with True show ?thesis by (simp add: parse_esp_packet_def)
next
  case False
  have "n mod 2 ^ 64 = (n + 2 ^ 64) mod 2 ^ 64" by simp
  also have "\<dots> = n + 2 ^ 64" using assms False by (intro mod_pos_pos_trivial) auto
  finally have "\<not> (word_of_int n :: u64) < 8"
    using assms by (simp add: word_less_def uint_word_of_int)
  then show ?thesis
    using assms(3) False by (auto simp: parse_esp_packet_def load32_def load_obj_def Let_def split: bind_split)
qed

theorem esp_size_check_misses_negative_witness:
  "parse_esp_packet Little [1, 2, 3] 3 True initial_sad =
     Some ([Printf (''[ERROR] Packet too small for ESP header'' @ nl) []], initial_sad) \<and>
   parse_esp_packet Little [1, 2, 3] (- 1) True initial_sad = None"
  using esp_size_check_misses_negative [of 3 "[1, 2, 3]" Little True initial_sad]
    esp_size_check_misses_negative [of "- 1" "[1, 2, 3]" Little True initial_sad] by simp

lemma sample_esp_packet_fields:
  assumes "length buf = 100"
  shows "\<exists>packet g'. create_sample_esp_packet rnd e buf spi seq g = Some (packet, g') \<and>
     length packet = 100 \<and> esp_spi packet = spi \<and> esp_num packet = seq"
proof -
  let ?m = "enc Big spi @ enc Big seq @ drop 8 buf"
  have "create_sample_esp_packet rnd e buf spi seq g = fill_random rnd ?m 8 92 g"
    using assms by (simp add: create_sample_esp_packet_def store_word_def write_bytes_def enc_hton [where n = 4])
  moreover obtain bs g' where "fill_random rnd ?m 8 92 g = Some (take 8 ?m @ bs @ drop (8 + 92) ?m, g')" and "length bs = 92"
    using fill_random_total [of 8 92 ?m rnd g] assms by auto
  ultimately show ?thesis
    using assms by (simp add: esp_spi_def esp_num_def dec_enc [where n = 4])
qed

text \<open>The header that \<open>create_sample_esp_packet\<close> writes is the one the parser reads. In a
  buffer of 100 bytes, whatever it held, on both kinds of host and for every generator, all
  stores are in bounds, and the SPI and the sequence number come back.\<close>

lemma sample_esp_packet_roundtrip:
  assumes "length buf = 100"
  shows "\<exists>packet g'. create_sample_esp_packet rnd e buf spi seq g = Some (packet, g') \<and>
     length packet = 100 \<and> esp_spi packet = spi \<and> esp_num packet = seq"
  using assms by (rule sample_esp_packet_fields)

theorem sample_esp_packet_roundtrip_witness:
  "\<exists>packet g'. create_sample_esp_packet (\<lambda>g. (g, g + 1)) Little (replicate 100 0) 0xDEADBEEF 500 0 = Some (packet, g') \<and>
     length packet = 100 \<and> esp_spi packet = 0xDEADBEEF \<and> esp_num packet = 500"
  by (rule sample_esp_packet_roundtrip) simp

lemma esp_main_step:
  assumes "sad_wf s" and "length packet = 100"
  obtains outs s' where "parse_esp_packet e packet 100 True s = Some (outs, s')" and "sad_wf s'"
    and "verdicts outs = [fst (esp_contract (counters s) (esp_spi packet) (esp_num packet))]"
    and "counters s' = snd (esp_contract (counters s) (esp_spi packet) (esp_num packet))"
proof -
  have n: "8 \<le> (100::int)" "(100::int) < 2 ^ 31" "100 \<le> int (length packet)" using assms(2) by simp_all
  from parse_esp_refines_aux [OF assms(1) n, of e True] obtain outs s' where
    p: "parse_esp_packet e packet 100 True s = Some (outs, s')" "sad_wf s'" "verdicts outs = [verdict_of outs]"
    and c: "(verdict_of outs, counters s') = esp_contract (counters s) (esp_spi packet) (esp_num packet)" by blast
  have "fst (esp_contract (counters s) (esp_spi packet) (esp_num packet)) = verdict_of outs"
    and "snd (esp_contract (counters s) (esp_spi packet) (esp_num packet)) = counters s'"
    by (simp_all only: c [symmetric] fst_conv snd_conv)
  with that [OF p(1,2)] p(3) show thesis by simp
qed

lemma verdicts_explain_modes: "verdicts explain_modes = []"
  by (simp add: explain_modes_def verdicts_simps verdict_mark_def)

lemma esp_main_adds:
  obtains a1 s1 a2 s2 a3 s3 where
    "add_sa 0x12345678 ''VPN to DataCenter'' 12 5 initial_sad = Some (a1, s1)"
    "add_sa 0xABCDEF00 ''Remote Office Link'' 14 6 s1 = Some (a2, s2)"
    "add_sa 0x11111111 ''Test Connection'' 3 2 s2 = Some (a3, s3)"
    "sad_wf s3" "counters s3 = [0x12345678 \<mapsto> 0, 0xABCDEF00 \<mapsto> 0, 0x11111111 \<mapsto> 0]"
    "verdicts a1 = []" "verdicts a2 = []" "verdicts a3 = []"
proof -
  let ?s1 = "install_sa 0x12345678 (''VPN to DataCenter'', 12, 5) initial_sad"
  let ?s2 = "install_sa 0xABCDEF00 (''Remote Office Link'', 14, 6) ?s1"
  let ?s3 = "install_sa 0x11111111 (''Test Connection'', 3, 2) ?s2"
  let ?kvs = "[(0x12345678, ''VPN to DataCenter'', 12, 5), (0xABCDEF00, ''Remote Office Link'', 14, 6),
               (0x11111111, ''Test Connection'', 3, 2)] :: (u32 \<times> string \<times> u8 \<times> u8) list"
  have wf: "sad_wf ?s1" "sad_wf ?s2" "sad_wf ?s3"
    by (intro install_sa_wf sad_wf_initial)+
  have "counters ?s3 = [0x12345678 \<mapsto> 0, 0xABCDEF00 \<mapsto> 0, 0x11111111 \<mapsto> 0]"
    using counters_add_all [of ?kvs] by (auto simp: fun_eq_iff max_sa_def)
  with that wf(3) add_sa_installs [OF sad_wf_initial] add_sa_installs [OF wf(1)] add_sa_installs [OF wf(2)]
  show thesis by metis
qed

lemma esp_main_packet:
  assumes "sad_wf s" and "length buf = 100"
  obtains packet g' outs s' where
    "create_sample_esp_packet rnd e buf spi seq g = Some (packet, g')"
    "parse_esp_packet e packet 100 True s = Some (outs, s')" "sad_wf s'"
    "verdicts outs = [fst (esp_contract (counters s) spi seq)]"
    "counters s' = snd (esp_contract (counters s) spi seq)"
proof -
  obtain packet g' where p: "create_sample_esp_packet rnd e buf spi seq g = Some (packet, g')"
      "length packet = 100" "esp_spi packet = spi" "esp_num packet = seq"
    using sample_esp_packet_fields [OF assms(2), where rnd = rnd and e = e and spi = spi and seq = seq and g = g] by blast
  show thesis
    by (rule esp_main_step [OF assms(1) p(2), of e]) (use that p in simp)
qed

text \<open>The demonstration. For every generator, every content of the four packet buffers
  and both kinds of host, \<open>main\<close> runs to its end and returns 0; its four packets are
  accepted (1001), accepted (1002), rejected as a replay (1001) and dropped (unknown SPI), and
  only the counter of the first association has moved.\<close>

lemma esp_main_verdicts:
  assumes "length b1 = 100" "length b2 = 100" "length b3 = 100" "length b4 = 100"
  shows "\<exists>outs s. esp_main rnd e b1 b2 b3 b4 g = Some (outs, s, 0) \<and>
     verdicts outs = [Accepted, Accepted, Rejected, No_SA] \<and>
     counters s = [0x12345678 \<mapsto> 1002, 0xABCDEF00 \<mapsto> 0, 0x11111111 \<mapsto> 0]"
proof -
  let ?m = "\<lambda>n. [0x12345678 \<mapsto> n, 0xABCDEF00 \<mapsto> 0, 0x11111111 \<mapsto> 0] :: u32 \<rightharpoonup> u32"
  obtain a1 s1 a2 s2 a3 s3 where
    a: "add_sa 0x12345678 ''VPN to DataCenter'' 12 5 initial_sad = Some (a1, s1)"
      "add_sa 0xABCDEF00 ''Remote Office Link'' 14 6 s1 = Some (a2, s2)"
      "add_sa 0x11111111 ''Test Connection'' 3 2 s2 = Some (a3, s3)"
    and s3: "sad_wf s3" "counters s3 = ?m 0" and va: "verdicts a1 = []" "verdicts a2 = []" "verdicts a3 = []"
    by (rule esp_main_adds) blast
  obtain q1 g1 p1 s4 where 1: "create_sample_esp_packet rnd e b1 0x12345678 1001 g = Some (q1, g1)"
      "parse_esp_packet e q1 100 True s3 = Some (p1, s4)" "sad_wf s4" "verdicts p1 = [Accepted]" "counters s4 = ?m 1001"
    by (rule esp_main_packet [OF s3(1) assms(1), where rnd = rnd and e = e and spi = "0x12345678" and seq = "1001" and g = g])
       (simp add: s3(2) esp_contract_def fun_upd_twist)
  obtain q2 g2 p2 s5 where 2: "create_sample_esp_packet rnd e b2 0x12345678 1002 g1 = Some (q2, g2)"
      "parse_esp_packet e q2 100 True s4 = Some (p2, s5)" "sad_wf s5" "verdicts p2 = [Accepted]" "counters s5 = ?m 1002"
    by (rule esp_main_packet [OF 1(3) assms(2), where rnd = rnd and e = e and spi = "0x12345678" and seq = "1002" and g = g1])
       (simp add: 1(5) esp_contract_def fun_upd_twist)
  obtain q3 g3 p3 s6 where 3: "create_sample_esp_packet rnd e b3 0x12345678 1001 g2 = Some (q3, g3)"
      "parse_esp_packet e q3 100 True s5 = Some (p3, s6)" "sad_wf s6" "verdicts p3 = [Rejected]" "counters s6 = ?m 1002"
    by (rule esp_main_packet [OF 2(3) assms(3), where rnd = rnd and e = e and spi = "0x12345678" and seq = "1001" and g = g2])
       (simp add: 2(5) esp_contract_def)
  obtain q4 g4 p4 s7 where 4: "create_sample_esp_packet rnd e b4 0xDEADBEEF 500 g3 = Some (q4, g4)"
      "parse_esp_packet e q4 100 True s6 = Some (p4, s7)" "verdicts p4 = [No_SA]" "counters s7 = ?m 1002"
    by (rule esp_main_packet [OF 3(3) assms(4), where rnd = rnd and e = e and spi = "0xDEADBEEF" and seq = "500" and g = g3])
       (simp add: 3(5) esp_contract_def)
  show ?thesis
    using a 1(1,2) 2(1,2) 3(1,2) 4(1,2)
    by (simp add: esp_main_def verdicts_simps verdict_mark_def verdicts_explain_modes va 1 2 3 4)
qed

theorem esp_main_verdicts_witness:
  "\<exists>outs s. esp_main (\<lambda>g. (g, g + 1)) Little (replicate 100 0) (replicate 100 1) (replicate 100 2) (replicate 100 3) (0 :: u32) =
       Some (outs, s, 0) \<and>
     verdicts outs = [Accepted, Accepted, Rejected, No_SA] \<and>
     counters s = [0x12345678 \<mapsto> 1002, 0xABCDEF00 \<mapsto> 0, 0x11111111 \<mapsto> 0]"
  by (rule esp_main_verdicts) simp_all

text \<open>C19: the report of an accepted packet reads back. Whatever the byte order of the host, the
  hexadecimal digits after \<open>SPI\<close> are the first four bytes of the packet, the decimal digits after
  \<open>Sequence Number\<close> are the number in its next four bytes, and the dump of an encrypted packet
  is the payload from byte 8 on, cut at 16 bytes and at the length of the packet.\<close>

theorem esp_report_reads_back:
  assumes "sad_wf s" and "8 \<le> n" "n < 2 ^ 31" "n \<le> int (length packet)"
    and "fst (esp_contract (counters s) (esp_spi packet) (esp_num packet)) = Accepted"
  shows "\<exists>spi spi_dec num mid bytes rest.
    map_option (\<lambda>(outs, s'). concat (map render outs)) (parse_esp_packet e packet n True s) =
      Some (nl @ ''========== ESP PACKET ANALYSIS =========='' @ nl @ nl @
        ''SPI (Security Parameter Index): 0x'' @ spi @ '' ('' @ spi_dec @ '')'' @ nl @
        ''Sequence Number: '' @ num @ nl @ mid @ ''   First 16 bytes: '' @ bytes @ nl @ rest) \<and>
    length spi = 8 \<and> hex_bytes spi = take 4 packet \<and>
    number_of 10 num = unat (esp_num packet) \<and>
    hex_bytes bytes = take 16 (drop 8 (take (nat n) packet))"
proof -
  let ?dump = "map (\<lambda>b. Printf ''%02X '' [of_u b]) (take 16 (take (nat (n - 8)) (drop 8 packet)))"
  have d: "dump_payload packet 8 0 (n - 8) 16 = Some ?dump"
    using dump_payload_dumps [of 8 "n - 8" packet 0 16] assms by simp
  have "drop 8 (take (nat n) packet) = take (nat (n - 8)) (drop 8 packet)"
    using assms(2) by (simp add: drop_take nat_diff_distrib)
  then have b: "hex_bytes (concat (map render ?dump)) = take 16 (drop 8 (take (nat n) packet))"
    using dumped_spaced [unfolded dumped_def] by simp
  have "8 \<le> length packet" using assms by linarith
  then have spi: "hex_bytes (concat (map hex2 (enc Big (esp_spi packet)))) = take 4 packet"
    using hex_bytes_pairs [of "enc Big (esp_spi packet)" "[]"] by (simp add: esp_spi_def enc_dec)
  have f: "c_format (''SPI (Security Parameter Index): 0x%08X (%u)'' @ nl) [of_u w, of_u w] =
      ''SPI (Security Parameter Index): 0x'' @ concat (map hex2 (enc Big w)) @ '' ('' @ show_dec (unat w) @ '')'' @ nl"
    "c_format (''Sequence Number: %u'' @ nl) [of_u w] = ''Sequence Number: '' @ show_dec (unat w) @ nl" for w :: u32
    using format_hex8 [of w] fmt_int_plain by (simp_all add: c_format_def fmt_conv_def show_dec_def)
  obtain mid payload s' where p: "payload_output packet n True = Some payload"
    and out: "parse_esp_packet e packet n True s = Some (
      [Printf (nl @ ''========== ESP PACKET ANALYSIS =========='' @ nl @ nl) [],
       Printf (''SPI (Security Parameter Index): 0x%08X (%u)'' @ nl) [of_u (esp_spi packet), of_u (esp_spi packet)],
       Printf (''Sequence Number: %u'' @ nl) [of_u (esp_num packet)]] @ mid @ payload, s')"
    using parse_accepted [OF assms, of True e] by blast
  obtain title rest where pay: "payload =
      [Printf title [CInt (n - 8)], Printf ''   First 16 bytes: '' []] @ ?dump @ Printf nl [] # rest"
    using payload_encrypted [OF d assms(2)] p by (metis option.inject)
  have c: "c_format (nl @ ''========== ESP PACKET ANALYSIS =========='' @ nl @ nl) [] =
      nl @ ''========== ESP PACKET ANALYSIS =========='' @ nl @ nl"
    "c_format ''   First 16 bytes: '' [] = ''   First 16 bytes: ''" "c_format nl [] = nl"
    by (simp_all add: c_format_def)
  have len: "length (concat (map hex2 (enc Big w))) = 8" for w :: u32
    by (simp add: length_concat hex2_def comp_def sum_list_triv)
  show ?thesis
    unfolding out pay option.map prod.case map_append concat_append list.map concat.simps render.simps c f
    by (rule exI [of _ "concat (map hex2 (enc Big (esp_spi packet)))"], rule exI [of _ "show_dec (unat (esp_spi packet))"],
        rule exI [of _ "show_dec (unat (esp_num packet))"],
        rule exI [of _ "concat (map render mid) @ c_format title [CInt (n - 8)]"],
        rule exI [of _ "concat (map render ?dump)"], rule exI [of _ "concat (map render rest)"],
        intro conjI len spi b number_of_show_dec)
       (simp only: append_assoc append_Nil append_Nil2)
qed

theorem esp_report_reads_back_witness:
  "\<exists>spi spi_dec num mid bytes rest.
    map_option (\<lambda>(outs, s'). concat (map render outs))
      (parse_esp_packet Little (sample_packet 0x12345678 7) 12 True sample_sad) =
      Some (nl @ ''========== ESP PACKET ANALYSIS =========='' @ nl @ nl @
        ''SPI (Security Parameter Index): 0x'' @ spi @ '' ('' @ spi_dec @ '')'' @ nl @
        ''Sequence Number: '' @ num @ nl @ mid @ ''   First 16 bytes: '' @ bytes @ nl @ rest) \<and>
    length spi = 8 \<and> hex_bytes spi = take 4 (sample_packet 0x12345678 7) \<and> number_of 10 num = 7 \<and>
    hex_bytes bytes = take 16 (drop 8 (take 12 (sample_packet 0x12345678 7)))"
proof -
  let ?p = "sample_packet 0x12345678 7"
  have a: "fst (esp_contract (counters sample_sad) (esp_spi ?p) (esp_num ?p)) = Accepted"
    by (simp add: sample_packet_fields sample_sad_counters esp_contract_def)
  have "(12 :: int) \<le> int (length ?p)" by (simp add: sample_packet_fields)
  from esp_report_reads_back [OF sample_sad_wf _ _ this a, of Little]
  show ?thesis by (simp only: sample_packet_fields) simp
qed

end
