(* ===== verification/Simulation.thy ===== *)
theory Simulation
  imports Main
begin

text \<open>
  Refinement of a component by an abstract machine. A component runs a list of operations; an
  operation that accesses memory outside an object makes the run \<open>None\<close>. The locale states
  that every single operation does what the machine does, through an abstraction of the state
  and an observation of the output, and proves it for all runs.
\<close>

fun run_ops :: "('s \<Rightarrow> 'op \<Rightarrow> ('o \<times> 's) option) \<Rightarrow> 's \<Rightarrow> 'op list \<Rightarrow> ('o list \<times> 's) option" where
  "run_ops step s [] = Some ([], s)"
| "run_ops step s (op # ops) =
     (case step s op of
        None \<Rightarrow> None
      | Some (out, s') \<Rightarrow> map_option (\<lambda>(outs, s''). (out # outs, s'')) (run_ops step s' ops))"

lemma run_ops_length: "run_ops step s ops = Some (outs, s') \<Longrightarrow> length outs = length ops"
  by (induction ops arbitrary: s outs) (auto split: option.splits)

fun run_spec :: "('a \<Rightarrow> 'op \<Rightarrow> 'r \<times> 'a) \<Rightarrow> 'a \<Rightarrow> 'op list \<Rightarrow> 'r list \<times> 'a" where
  "run_spec spec m [] = ([], m)"
| "run_spec spec m (op # ops) =
     (case spec m op of (r, m') \<Rightarrow> (case run_spec spec m' ops of (rs, m'') \<Rightarrow> (r # rs, m'')))"

locale simulation =
  fixes step :: "'s \<Rightarrow> 'op \<Rightarrow> ('o \<times> 's) option" and spec :: "'a \<Rightarrow> 'op \<Rightarrow> 'r \<times> 'a"
    and abs :: "'s \<Rightarrow> 'a" and seen :: "'op \<Rightarrow> 'o \<Rightarrow> 'r"
    and invar :: "'s \<Rightarrow> bool" and allowed :: "'op \<Rightarrow> bool"
  assumes step_refines: "invar s \<Longrightarrow> allowed op \<Longrightarrow>
    \<exists>out s'. step s op = Some (out, s') \<and> invar s' \<and> (seen op out, abs s') = spec (abs s) op"
begin

lemma run_refines:
  "invar s \<Longrightarrow> list_all allowed ops \<Longrightarrow>
   \<exists>outs s'. run_ops step s ops = Some (outs, s') \<and> invar s' \<and>
     (map2 seen ops outs, abs s') = run_spec spec (abs s) ops"
proof (induction ops arbitrary: s)
  case (Cons op ops)
  obtain out s' where o: "step s op = Some (out, s')" and i: "invar s'"
    and a: "(seen op out, abs s') = spec (abs s) op"
    using step_refines [of s op] Cons.prems by auto
  obtain outs s'' where "run_ops step s' ops = Some (outs, s'')" "invar s''"
    and "(map2 seen ops outs, abs s'') = run_spec spec (abs s') ops"
    using Cons.IH [OF i] Cons.prems by auto
  with o show ?case by (auto simp: a [symmetric] split: prod.splits)
qed simp

end

end
