(* ===== verification/EspMachine.thy ===== *)
theory EspMachine
  imports Esp Simulation
begin

text \<open>
  The ESP component as a whole: any sequence of additions to the database and received packets
  (10_ipsec_esp_parser.c), against an abstract machine that keeps the number of used entries
  and the last number accepted for each SPI. The simulation is proved operation by operation;
  what holds of the machine for all sequences then holds of the code.
\<close>

section \<open>The operations\<close>

datatype esp_op = Add_SA u32 string u8 u8 | Receive bytes int bool

definition esp_step :: "endian \<Rightarrow> sad \<Rightarrow> esp_op \<Rightarrow> (out list \<times> sad) option" where
  "esp_step e s op =
     (case op of
        Add_SA spi desc enc_algo auth \<Rightarrow> add_sa spi desc enc_algo auth s
      | Receive packet n b \<Rightarrow> parse_esp_packet e packet n b s)"

text \<open>A caller passes a length that is not negative and not larger than the buffer.\<close>

definition esp_allowed :: "esp_op \<Rightarrow> bool" where
  "esp_allowed op =
     (case op of
        Add_SA spi desc enc_algo auth \<Rightarrow> True
      | Receive packet n b \<Rightarrow> 0 \<le> n \<and> n < 2 ^ 31 \<and> n \<le> int (length packet))"

section \<open>The abstract machine\<close>

datatype esp_answer = Added | Full | Too_Small | Judged verdict

record esp_machine =
  used :: nat
  last_seen :: "u32 \<rightharpoonup> u32"

definition esp_spec :: "esp_machine \<Rightarrow> esp_op \<Rightarrow> esp_answer \<times> esp_machine" where
  "esp_spec m op =
     (case op of
        Add_SA spi desc enc_algo auth \<Rightarrow>
          (if used m < 10
           then (Added, m\<lparr>used := used m + 1,
                          last_seen := (if last_seen m spi = None then (last_seen m)(spi \<mapsto> 0) else last_seen m)\<rparr>)
           else (Full, m))
      | Receive packet n b \<Rightarrow>
          (if n < 8 then (Too_Small, m)
           else (case esp_contract (last_seen m) (esp_spi packet) (esp_num packet) of
                   (v, l) \<Rightarrow> (Judged v, m\<lparr>last_seen := l\<rparr>))))"

definition esp_abs :: "sad \<Rightarrow> esp_machine" where
  "esp_abs s = \<lparr>used = sa_count s, last_seen = counters s\<rparr>"

text \<open>What a user of the program sees of the answer.\<close>

definition esp_seen :: "esp_op \<Rightarrow> out list \<Rightarrow> esp_answer" where
  "esp_seen op outs =
     (case op of
        Add_SA spi desc enc_algo auth \<Rightarrow>
          (if outs = [Printf (''[ERROR] SA database full'' @ nl) []] then Full else Added)
      | Receive packet n b \<Rightarrow>
          (if outs = [Printf (''[ERROR] Packet too small for ESP header'' @ nl) []] then Too_Small
           else Judged (verdict_of outs)))"

section \<open>The simulation\<close>

lemma add_refines:
  assumes wf: "sad_wf s"
  shows "\<exists>outs s'. add_sa spi desc enc_algo auth s = Some (outs, s') \<and> sad_wf s' \<and>
    (esp_seen (Add_SA spi desc enc_algo auth) outs, esp_abs s') = esp_spec (esp_abs s) (Add_SA spi desc enc_algo auth)"
proof (cases "sa_count s < max_sa")
  case False
  then show ?thesis using wf by (auto simp: add_sa_full esp_seen_def esp_abs_def esp_spec_def max_sa_def)
next
  case True
  let ?s = "install_sa spi (desc, enc_algo, auth) s"
  have a: "add_sa spi desc enc_algo auth s =
      Some ([Printf (''[+] Added SA: SPI=0x%08X, Desc=%s'' @ nl) [of_u spi, CStr desc]], ?s)"
    using wf True by (simp add: install_sa_def add_sa_room)
  have "counters ?s = (if counters s spi = None then (counters s)(spi \<mapsto> 0) else counters s)"
    using sa_table.lookup_add [OF wf True, of spi "(desc, enc_algo, auth)"]
    by (auto simp: counters_def new_sa_def fun_eq_iff split: option.split)
  then show ?thesis
    using a install_sa_wf [OF wf] sa_table.entries_add [OF wf True, of spi "(desc, enc_algo, auth)"] True
    by (auto simp: esp_seen_def esp_abs_def esp_spec_def max_sa_def)
qed

lemma count_kept:
  assumes "parse_esp_packet e packet n b s = Some (outs, s')"
  shows "sa_count s' = sa_count s"
  using assms by (auto simp: parse_esp_packet_def Let_def split: if_splits option.splits bind_splits prod.splits)

lemma receive_refines:
  assumes wf: "sad_wf s" and ok: "esp_allowed (Receive packet n b)"
  shows "\<exists>outs s'. parse_esp_packet e packet n b s = Some (outs, s') \<and> sad_wf s' \<and>
    (esp_seen (Receive packet n b) outs, esp_abs s') = esp_spec (esp_abs s) (Receive packet n b)"
proof (cases "n < 8")
  case True
  then have "(word_of_int n :: u64) < 8" using ok by (simp add: esp_allowed_def word_less_def uint_word_of_int)
  then show ?thesis using True wf by (simp add: parse_esp_packet_def esp_seen_def esp_spec_def)
next
  case False
  then obtain outs s' where p: "parse_esp_packet e packet n b s = Some (outs, s')" and wf': "sad_wf s'"
    and v: "verdicts outs = [verdict_of outs]"
    and c: "(verdict_of outs, counters s') = esp_contract (counters s) (esp_spi packet) (esp_num packet)"
    using parse_esp_refines_aux [OF wf, of n packet e b] ok by (auto simp: esp_allowed_def)
  have "outs \<noteq> [Printf (''[ERROR] Packet too small for ESP header'' @ nl) []]"
    using v by (auto simp: verdicts_simps verdict_mark_def)
  then show ?thesis
    using False p wf' c count_kept [OF p]
    by (auto simp: esp_seen_def esp_spec_def esp_abs_def split: prod.splits)
qed

interpretation esp_sim: simulation "esp_step e" esp_spec esp_abs esp_seen sad_wf esp_allowed for e
proof unfold_locales
  fix s op assume "sad_wf s" "esp_allowed op"
  then show "\<exists>out s'. esp_step e s op = Some (out, s') \<and> sad_wf s' \<and>
      (esp_seen op out, esp_abs s') = esp_spec (esp_abs s) op"
    by (cases op) (simp_all add: esp_step_def add_refines receive_refines)
qed

section \<open>Well-formedness\<close>

text \<open>Every operation keeps the shape of the database, also where the caller passes a wrong length:
  what an access out of bounds does is undefined, but no defined step breaks the invariant.\<close>

lemma parse_keeps_wf:
  assumes wf: "sad_wf s" and p: "parse_esp_packet e packet n b s = Some (outs, s')"
  shows "sad_wf s'"
proof -
  have "s' = s \<or> (\<exists>i sa seq. nth_opt (sa_database s) i = Some sa \<and>
      s' = s\<lparr>sa_database := (sa_database s)[i := snd (snd (check_replay sa seq))]\<rparr>)"
    using p by (auto simp: parse_esp_packet_def Let_def split: if_splits option.splits bind_splits prod.splits;
      metis snd_conv)
  moreover have "sa_wf (snd (snd (check_replay sa seq)))" if "nth_opt (sa_database s) i = Some sa" for i sa seq
  proof -
    have "sa_wf sa" using wf that by (auto simp: nth_opt_def sad_wf_def list_all_iff split: if_splits)
    then show ?thesis by (rule_tac check_replay_cases [of seq sa]; auto simp: sa_wf_def)
  qed
  ultimately show ?thesis using wf sad_wf_update [OF wf] by auto
qed

lemma esp_step_keeps_wf: "sad_wf s \<Longrightarrow> esp_step e s op = Some (outs, s') \<Longrightarrow> sad_wf s'"
proof (cases op)
  case (Add_SA spi desc enc_algo auth)
  assume wf: "sad_wf s" and "esp_step e s op = Some (outs, s')"
  then show ?thesis using add_refines [OF wf, of spi desc enc_algo auth] by (auto simp: Add_SA esp_step_def)
next
  case (Receive packet n b)
  assume "sad_wf s" and "esp_step e s op = Some (outs, s')"
  then show ?thesis by (auto simp: Receive esp_step_def intro: parse_keeps_wf)
qed

lemma run_keeps_wf: "sad_wf s \<Longrightarrow> run_ops (esp_step e) s ops = Some (outs, s') \<Longrightarrow> sad_wf s'"
  by (induction ops arbitrary: s outs) (auto split: option.splits dest: esp_step_keeps_wf)

fun additions :: "esp_op list \<Rightarrow> nat" where
  "additions [] = 0"
| "additions (Add_SA spi desc enc_algo auth # ops) = additions ops + 1"
| "additions (Receive packet n b # ops) = additions ops"

lemma run_counts_additions:
  "sad_wf s \<Longrightarrow> run_ops (esp_step e) s ops = Some (outs, s') \<Longrightarrow> sa_count s' = min 10 (sa_count s + additions ops)"
proof (induction ops arbitrary: s outs)
  case Nil
  then show ?case by (simp add: sad_wf_def max_sa_def)
next
  case (Cons op ops)
  then obtain out s1 outs' where o: "esp_step e s op = Some (out, s1)"
    and r: "run_ops (esp_step e) s1 ops = Some (outs', s')"
    by (auto split: option.splits)
  have wf: "sad_wf s1" using Cons.prems(1) o by (rule esp_step_keeps_wf)
  have "sa_count s1 = min 10 (sa_count s + additions [op])"
  proof (cases op)
    case (Add_SA spi desc enc_algo auth)
    then show ?thesis
      using add_refines [OF Cons.prems(1), of spi desc enc_algo auth] o Cons.prems(1)
      by (auto simp: esp_step_def esp_spec_def esp_abs_def sad_wf_def max_sa_def split: if_splits)
  next
    case (Receive packet n b)
    then show ?thesis using o count_kept Cons.prems(1) by (auto simp: esp_step_def sad_wf_def max_sa_def)
  qed
  then show ?case using Cons.IH [OF wf r] by (cases op) auto
qed

section \<open>Accepted packets of the machine\<close>

fun accepted_pairs :: "esp_op list \<Rightarrow> esp_answer list \<Rightarrow> (u32 \<times> u32) list" where
  "accepted_pairs (Receive packet n b # ops) (Judged Accepted # rs) =
     (esp_spi packet, esp_num packet) # accepted_pairs ops rs"
| "accepted_pairs (_ # ops) (_ # rs) = accepted_pairs ops rs"
| "accepted_pairs _ _ = []"

definition above :: "esp_machine \<Rightarrow> u32 \<times> u32 \<Rightarrow> bool" where
  "above m = (\<lambda>(spi, q). case last_seen m spi of None \<Rightarrow> True | Some h \<Rightarrow> h < q)"

text \<open>One operation: what is above the counters afterwards was above them before, and an accepted
  packet was above them and is not any more.\<close>

lemma above_step:
  assumes "esp_spec m op = (r, m')"
  shows "above m' x \<Longrightarrow> above m x"
    and "x \<in> set (accepted_pairs [op] [r]) \<Longrightarrow> above m x \<and> \<not> above m' x"
    and "length (accepted_pairs [op] [r]) \<le> 1"
  using assms
  by (cases op; auto simp: esp_spec_def esp_contract_def above_def split: if_splits option.splits prod.splits)+

lemma accepted_pairs_Cons: "accepted_pairs (op # ops) (r # rs) = accepted_pairs [op] [r] @ accepted_pairs ops rs"
  by (cases "(op # ops, r # rs)" rule: accepted_pairs.cases) auto

lemma spec_accepts_once:
  "distinct (accepted_pairs ops (fst (run_spec esp_spec m ops))) \<and>
   list_all (above m) (accepted_pairs ops (fst (run_spec esp_spec m ops)))"
proof (induction ops arbitrary: m)
  case (Cons op ops)
  obtain r m' where o: "esp_spec m op = (r, m')" by fastforce
  let ?new = "accepted_pairs [op] [r]" and ?rest = "accepted_pairs ops (fst (run_spec esp_spec m' ops))"
  have "accepted_pairs (op # ops) (fst (run_spec esp_spec m (op # ops))) = ?new @ ?rest"
    by (simp add: o accepted_pairs_Cons [of op ops] split: prod.split)
  moreover have "distinct ?new" using above_step(3) [OF o] by (cases ?new) auto
  ultimately show ?case
    using Cons.IH [of m'] above_step(1,2) [OF o] by (auto simp: list_all_iff)
qed simp

section \<open>Properties\<close>

text \<open>C2: the ESP program refines its abstract machine. Over any sequence of additions and
  received packets, of any content and with any length between 0 and the size of the buffer,
  no access is out of bounds, the invariant of the database holds afterwards, and the answers
  and the final counters are those of a machine that has ten entries, gives an SPI the counter
  0 when it is first added, keeps the counter when it is added again, and moves it exactly on
  acceptance.\<close>

theorem esp_program_refines:
  assumes "list_all esp_allowed ops"
  shows "\<exists>outs s. run_ops (esp_step e) initial_sad ops = Some (outs, s) \<and> sad_wf s \<and>
    (map2 esp_seen ops outs, esp_abs s) = run_spec esp_spec \<lparr>used = 0, last_seen = (\<lambda>_. None)\<rparr> ops"
proof -
  have "esp_abs initial_sad = \<lparr>used = 0, last_seen = (\<lambda>_. None)\<rparr>"
    by (simp add: esp_abs_def counters_def sa_table.lookup_empty sa_table.entries_empty)
  then show ?thesis using esp_sim.run_refines [OF sad_wf_initial assms, of e] by simp
qed

definition sample_ops :: "esp_op list" where
  "sample_ops =
     [Receive (sample_packet 7 1) 12 True, Add_SA 7 ''peer'' 12 5, Receive (sample_packet 7 1) 12 True,
      Add_SA 7 ''again'' 12 5, Receive (sample_packet 7 1) 12 True, Receive [1, 2, 3] 3 False]"

lemma sample_ops_allowed: "list_all esp_allowed sample_ops"
  by (simp add: sample_ops_def esp_allowed_def sample_packet_fields)

lemma sample_ops_spec:
  "fst (run_spec esp_spec \<lparr>used = 0, last_seen = (\<lambda>_. None)\<rparr> sample_ops) =
     [Judged No_SA, Added, Judged Accepted, Added, Judged Rejected, Too_Small]"
  by (simp add: sample_ops_def esp_spec_def esp_contract_def sample_packet_fields)

theorem esp_program_refines_witness:
  "\<exists>outs s. run_ops (esp_step Little) initial_sad sample_ops = Some (outs, s) \<and> sad_wf s \<and>
    map2 esp_seen sample_ops outs = [Judged No_SA, Added, Judged Accepted, Added, Judged Rejected, Too_Small]"
  using esp_program_refines [OF sample_ops_allowed, of Little] sample_ops_spec by (metis fst_conv)

text \<open>C8: no packet is accepted twice, whatever happens in between. Over any sequence of additions
  and received packets, from any database that satisfies the invariant, the pairs of SPI and
  sequence number of the accepted packets are distinct: adding an SPI again does not reopen its
  numbers.\<close>

theorem esp_program_accepts_once:
  assumes "sad_wf s" and "list_all esp_allowed ops" and "run_ops (esp_step e) s ops = Some (outs, s')"
  shows "distinct (accepted_pairs ops (map2 esp_seen ops outs))"
proof -
  have "map2 esp_seen ops outs = fst (run_spec esp_spec (esp_abs s) ops)"
    using esp_sim.run_refines [OF assms(1,2), of e] assms(3) by (metis fst_conv option.inject prod.inject)
  then show ?thesis using spec_accepts_once by simp
qed

theorem esp_program_accepts_once_witness:
  "\<exists>outs s. run_ops (esp_step Big) initial_sad sample_ops = Some (outs, s) \<and>
    distinct (accepted_pairs sample_ops (map2 esp_seen sample_ops outs)) \<and>
    accepted_pairs sample_ops (map2 esp_seen sample_ops outs) = [(7, 1)]"
proof -
  obtain outs s where r: "run_ops (esp_step Big) initial_sad sample_ops = Some (outs, s)"
    and a: "(map2 esp_seen sample_ops outs, esp_abs s) = run_spec esp_spec (esp_abs initial_sad) sample_ops"
    using esp_sim.run_refines [OF sad_wf_initial sample_ops_allowed, of Big] by blast
  have "esp_abs initial_sad = \<lparr>used = 0, last_seen = (\<lambda>_. None)\<rparr>"
    by (simp add: esp_abs_def counters_def sa_table.lookup_empty sa_table.entries_empty)
  then have "map2 esp_seen sample_ops outs = [Judged No_SA, Added, Judged Accepted, Added, Judged Rejected, Too_Small]"
    using a sample_ops_spec by (metis fst_conv)
  then show ?thesis
    using esp_program_accepts_once [OF sad_wf_initial sample_ops_allowed r] r
    by (simp add: sample_ops_def sample_packet_fields)
qed

text \<open>C25: the database keeps its shape. Whatever is added and received, also with lengths that are
  negative or larger than the buffer, as long as no access was out of bounds the database has
  its ten slots, as many used entries as there were additions, ten at most, and a terminated
  description of 64 bytes in every slot.\<close>

theorem esp_database_keeps_shape:
  assumes "run_ops (esp_step e) initial_sad ops = Some (outs, s)"
  shows "length (sa_database s) = 10 \<and> sa_count s = min 10 (additions ops) \<and>
    list_all (\<lambda>sa. length (description sa) = 64 \<and> c_string (description sa) \<noteq> None) (sa_database s)"
proof -
  have wf: "sad_wf s" using sad_wf_initial assms by (rule run_keeps_wf)
  then have "list_all (\<lambda>sa. length (description sa) = 64 \<and> c_string (description sa) \<noteq> None) (sa_database s)"
    using sa_wf_description by (auto simp: sad_wf_def sa_wf_def list_all_iff)
  then show ?thesis
    using wf run_counts_additions [OF sad_wf_initial assms] by (simp add: sad_wf_def max_sa_def initial_sad_def)
qed

theorem esp_database_keeps_shape_witness:
  "\<exists>outs s. run_ops (esp_step Big) initial_sad (replicate 11 (Add_SA 7 ''peer'' 12 5)) = Some (outs, s) \<and> sa_count s = 10"
proof -
  let ?ops = "replicate 11 (Add_SA 7 ''peer'' 12 5)"
  have "list_all esp_allowed ?ops" by (simp add: esp_allowed_def list_all_iff)
  then obtain outs s where r: "run_ops (esp_step Big) initial_sad ?ops = Some (outs, s)"
    using esp_sim.run_refines [OF sad_wf_initial, of ?ops Big] by blast
  have "additions ?ops = 11" by (simp add: eval_nat_numeral)
  then show ?thesis using esp_database_keeps_shape [OF r] r by simp
qed

end
