(* ===== verification/Posix.thy ===== *)
theory Posix
  imports Stdio
begin

text \<open>
  Programs that talk to the operating system. A program is a tree of its system calls and
  output calls: \<open>Sys c k\<close> makes the call \<open>c\<close> and goes on with \<open>k r\<close> on the system's reply
  \<open>r\<close>, \<open>Say\<close> prints, \<open>Exit\<close> ends the process, \<open>Again s\<close> goes back to the head of the
  program's endless loop with the variables \<open>s\<close>, and \<open>Undefined\<close> is an access outside an
  object. \<open>steps\<close> is the transition relation, with all possible replies; \<open>exec\<close> runs a
  program on a given list of replies.
\<close>

section \<open>Calls and replies\<close>

datatype domain = AF_INET | AF_PACKET
datatype sock_type = SOCK_STREAM | SOCK_DGRAM | SOCK_RAW
datatype sockopt = SO_REUSEADDR int | SO_RCVTIMEO int

text \<open>Port and address are words of the host that hold the value in network order.\<close>

record sockaddr_in =
  sin_port :: u16
  sin_addr :: u32

datatype (discs_sels) call =
    Socket domain sock_type u16
  | Setsockopt int sockopt
  | Bind int sockaddr_in
  | Listen int int
  | Accept int
  | Recv int nat
  | Recvfrom int nat
  | Send int bytes
  | Sendto int bytes sockaddr_in
  | Read int nat
  | Write int bytes
  | Close int
  | Open string
  | Ioctl int bytes u16
  | System bytes
  | Select int "int list"
  | Malloc nat
  | Free

text \<open>
  A reply: the value that the call returns, the bytes it delivers, the address it stores and
  the descriptors it reports as ready. A call takes from it what it delivers: a receiving
  call with room for \<open>n\<close> bytes stores the first \<open>n\<close> of the delivered ones and returns their
  number, unless it fails.
\<close>

record reply =
  ret :: int
  payload :: bytes
  peer :: sockaddr_in
  ready :: "int list"

definition received :: "nat \<Rightarrow> reply \<Rightarrow> bytes" where
  "received n r = (if ret r < 0 then [] else take n (payload r))"

definition received_len :: "nat \<Rightarrow> reply \<Rightarrow> int" where
  "received_len n r = (if ret r < 0 then ret r else int (length (received n r)))"

definition inet_ntoa :: "endian \<Rightarrow> u32 \<Rightarrow> string" where
  "inet_ntoa e a = dotted (map unat (enc e a))"

text \<open>
  \<open>inet_pton(AF_INET, ...)\<close>: four decimal fields of one to three digits, at most 255, without
  leading zeros (the rule of the GNU library), stored in memory order.
\<close>

definition octet_field :: "string \<Rightarrow> u8 option" where
  "octet_field s =
     (if s \<noteq> [] \<and> length s \<le> 3 \<and> list_all (\<lambda>c. (48::nat) \<le> of_char c \<and> (of_char c :: nat) < 58) s \<and>
         (s ! 0 = CHR ''0'' \<longrightarrow> length s = 1) \<and> number_of 10 s < 256
      then Some (of_nat (number_of 10 s)) else None)"

definition inet_pton :: "endian \<Rightarrow> string \<Rightarrow> u32 option" where
  "inet_pton e s =
     (case map octet_field (split_dots s) of
        [Some a, Some b, Some c, Some d] \<Rightarrow> Some (dec e [a, b, c, d])
      | _ \<Rightarrow> None)"

section \<open>Programs\<close>

datatype 's prog =
    Sys call "reply \<Rightarrow> 's prog"
  | Say out "'s prog"
  | Exit int
  | Again 's
  | Undefined

definition says :: "out list \<Rightarrow> 's prog \<Rightarrow> 's prog" where
  "says outs p = foldr Say outs p"

definition attempt :: "'a option \<Rightarrow> ('a \<Rightarrow> 's prog) \<Rightarrow> 's prog" where
  "attempt m k = (case m of None \<Rightarrow> Undefined | Some x \<Rightarrow> k x)"

datatype event = Called call reply | Shown out

definition outs_of :: "event list \<Rightarrow> out list" where
  "outs_of tr = concat (map (\<lambda>ev. case ev of Shown x \<Rightarrow> [x] | Called c r \<Rightarrow> []) tr)"

definition calls_of :: "event list \<Rightarrow> (call \<times> reply) list" where
  "calls_of tr = concat (map (\<lambda>ev. case ev of Shown x \<Rightarrow> [] | Called c r \<Rightarrow> [(c, r)]) tr)"

text \<open>The transition relation, labelled with the events.\<close>

inductive steps :: "('s \<Rightarrow> 's prog) \<Rightarrow> 's prog \<Rightarrow> event list \<Rightarrow> 's prog \<Rightarrow> bool"
  for body :: "'s \<Rightarrow> 's prog" where
  steps_refl: "steps body p [] p"
| steps_call: "steps body (k r) tr q \<Longrightarrow> steps body (Sys c k) (Called c r # tr) q"
| steps_say: "steps body p tr q \<Longrightarrow> steps body (Say x p) (Shown x # tr) q"
| steps_again: "steps body (body s) tr q \<Longrightarrow> steps body (Again s) tr q"

inductive_cases steps_SysE: "steps body (Sys c k) tr q"
inductive_cases steps_SayE: "steps body (Say x p) tr q"
inductive_cases steps_AgainE: "steps body (Again s) tr q"
inductive_simps steps_Exit [simp]: "steps body (Exit n) tr q"
inductive_simps steps_Undefined [simp]: "steps body Undefined tr q"

lemma steps_trans:
  "steps body p tr q \<Longrightarrow> steps body q tr' q' \<Longrightarrow> steps body p (tr @ tr') q'"
  by (induction rule: steps.induct) (auto intro: steps.intros)

section \<open>Execution on given replies\<close>

datatype 's stop = Exited int | Waiting call | Looped 's | Crashed

text \<open>One round: up to the end of the process or the next return to the head of the loop.\<close>

primrec run :: "'s prog \<Rightarrow> reply list \<Rightarrow> event list \<times> reply list \<times> 's stop" where
  "run (Sys c k) rs =
     (case rs of
        [] \<Rightarrow> ([], [], Waiting c)
      | r # rs' \<Rightarrow> (case run (k r) rs' of (tr, rest, st) \<Rightarrow> (Called c r # tr, rest, st)))"
| "run (Say x p) rs = (case run p rs of (tr, rest, st) \<Rightarrow> (Shown x # tr, rest, st))"
| "run (Exit n) rs = ([], rs, Exited n)"
| "run (Again s) rs = ([], rs, Looped s)"
| "run Undefined rs = ([], rs, Crashed)"

text \<open>At most \<open>n\<close> further rounds of the loop.\<close>

fun iterate :: "('s \<Rightarrow> 's prog) \<Rightarrow> nat \<Rightarrow> 's prog \<Rightarrow> reply list \<Rightarrow> event list \<times> 's stop" where
  "iterate body 0 p rs = (case run p rs of (tr, rest, st) \<Rightarrow> (tr, st))"
| "iterate body (Suc n) p rs =
     (case run p rs of (tr, rest, st) \<Rightarrow>
        (case st of
           Looped s \<Rightarrow> (case iterate body n (body s) rest of (tr', st') \<Rightarrow> (tr @ tr', st'))
         | _ \<Rightarrow> (tr, st)))"

definition exec :: "('s \<Rightarrow> 's prog) \<Rightarrow> 's prog \<Rightarrow> reply list \<Rightarrow> event list \<times> 's stop" where
  "exec body p rs = iterate body (Suc (length rs)) p rs"

lemma run_says [simp]:
  "run (says outs p) rs = (case run p rs of (tr, rest, st) \<Rightarrow> (map Shown outs @ tr, rest, st))"
  by (induction outs) (auto simp: says_def split: prod.split)

lemma outs_of_simps [simp]:
  "outs_of [] = []" "outs_of (Shown x # tr) = x # outs_of tr" "outs_of (Called c r # tr) = outs_of tr"
  "outs_of (tr @ tr') = outs_of tr @ outs_of tr'" "outs_of (map Shown outs) = outs"
  by (simp_all add: outs_of_def comp_def)

lemma calls_of_simps [simp]:
  "calls_of [] = []" "calls_of (Shown x # tr) = calls_of tr" "calls_of (Called c r # tr) = (c, r) # calls_of tr"
  "calls_of (tr @ tr') = calls_of tr @ calls_of tr'" "calls_of (map Shown outs) = []"
  by (simp_all add: calls_of_def comp_def)

lemma attempt_simps [simp]: "attempt (Some x) k = k x" "attempt None k = Undefined"
  by (simp_all add: attempt_def)

text \<open>Executions are paths of the transition relation, and every path is one.\<close>

definition stopped_at :: "'s stop \<Rightarrow> 's prog \<Rightarrow> bool" where
  "stopped_at st q =
     (case st of
        Exited n \<Rightarrow> q = Exit n | Waiting c \<Rightarrow> (\<exists>k. q = Sys c k) | Looped s \<Rightarrow> q = Again s
      | Crashed \<Rightarrow> q = Undefined)"

lemma run_steps: "run p rs = (tr, rest, st) \<Longrightarrow> \<exists>q. steps body p tr q \<and> stopped_at st q"
proof (induction p arbitrary: rs tr)
  case (Sys c k)
  show ?case
  proof (cases rs)
    case Nil
    with Sys.prems show ?thesis by (auto simp: stopped_at_def intro: steps_refl)
  next
    case (Cons r rs')
    with Sys.prems obtain tr' where t: "run (k r) rs' = (tr', rest, st)" "tr = Called c r # tr'"
      by (auto split: prod.splits)
    with Sys.IH [of "k r" rs' tr'] show ?thesis by (auto intro: steps_call)
  qed
next
  case (Say x p)
  then obtain tr' where "run p rs = (tr', rest, st)" "tr = Shown x # tr'"
    by (auto split: prod.splits)
  with Say.IH [of rs tr'] show ?case by (auto intro: steps_say)
qed (auto simp: stopped_at_def intro: steps_refl)

lemma iterate_steps: "iterate body n p rs = (tr, st) \<Longrightarrow> \<exists>q. steps body p tr q \<and> stopped_at st q"
proof (induction n arbitrary: p rs tr)
  case 0
  then show ?case using run_steps [of p rs tr _ st body] by (auto split: prod.splits)
next
  case (Suc n)
  obtain tr1 rest st1 where r: "run p rs = (tr1, rest, st1)" by (cases "run p rs") auto
  then obtain q1 where q1: "steps body p tr1 q1" "stopped_at st1 q1" using run_steps by blast
  show ?case
  proof (cases "\<exists>s. st1 = Looped s")
    case True
    then obtain s where s: "st1 = Looped s" by blast
    with Suc.prems r obtain tr2 where i: "iterate body n (body s) rest = (tr2, st)" and tr: "tr = tr1 @ tr2"
      by (auto split: prod.splits)
    obtain q where q: "steps body (body s) tr2 q" "stopped_at st q" using Suc.IH [OF i] by blast
    then have "steps body (Again s) tr2 q" by (intro steps_again)
    then show ?thesis using q1 q(2) steps_trans [of body p tr1 "Again s" tr2 q] by (auto simp: s tr stopped_at_def)
  next
    case False
    with Suc.prems r q1 show ?thesis by (cases st1) auto
  qed
qed

lemma iterate_Sys [simp]:
  "iterate body n (Sys c k) (r # rs) = (case iterate body n (k r) rs of (tr, st) \<Rightarrow> (Called c r # tr, st))"
  by (cases n) (auto split: prod.split stop.split)

lemma iterate_Say [simp]:
  "iterate body n (Say x p) rs = (case iterate body n p rs of (tr, st) \<Rightarrow> (Shown x # tr, st))"
  by (cases n) (auto split: prod.split stop.split)

lemma steps_iterate:
  "steps body p tr q \<Longrightarrow> stopped_at st q \<Longrightarrow> \<exists>n. iterate body n p (map snd (calls_of tr)) = (tr, st)"
proof (induction rule: steps.induct)
  case (steps_refl p)
  then have "iterate body 0 p [] = ([], st)" by (cases st) (auto simp: stopped_at_def)
  then have "\<exists>n. iterate body n p [] = ([], st)" by (rule exI)
  then show ?case by simp
next
  case (steps_call k r tr q c)
  then obtain n where "iterate body n (k r) (map snd (calls_of tr)) = (tr, st)" by blast
  then have "iterate body n (Sys c k) (map snd (calls_of (Called c r # tr))) = (Called c r # tr, st)" by simp
  then show ?case by blast
next
  case (steps_say p tr q x)
  then obtain n where "iterate body n p (map snd (calls_of tr)) = (tr, st)" by blast
  then have "iterate body n (Say x p) (map snd (calls_of (Shown x # tr))) = (Shown x # tr, st)" by simp
  then show ?case by blast
next
  case (steps_again s tr q)
  then obtain n where "iterate body n (body s) (map snd (calls_of tr)) = (tr, st)" by blast
  then have "iterate body (Suc n) (Again s) (map snd (calls_of tr)) = (tr, st)" by (simp split: prod.split)
  then show ?case by blast
qed

lemma run_rest_le: "run p rs = (tr, rest, st) \<Longrightarrow> length rest \<le> length rs"
proof (induction p arbitrary: rs tr)
  case (Sys c k)
  then show ?case by (cases rs) (fastforce split: prod.splits)+
qed (auto split: prod.splits)

lemma iterate_enough:
  "iterate body n p rs = (tr, st) \<Longrightarrow> (\<forall>s. st \<noteq> Looped s) \<Longrightarrow> iterate body (n + m) p rs = (tr, st)"
proof (induction n arbitrary: p rs tr)
  case 0
  then show ?case by (cases m) (auto split: prod.splits stop.splits)
next
  case (Suc n)
  obtain tr1 rest st1 where r: "run p rs = (tr1, rest, st1)" by (cases "run p rs") auto
  show ?case
  proof (cases st1)
    case (Looped s)
    with r Suc.prems obtain tr2 where "iterate body n (body s) rest = (tr2, st)" and tr: "tr = tr1 @ tr2"
      by (auto split: prod.splits)
    with Suc.IH [of "body s" rest tr2] Suc.prems(2) r Looped show ?thesis by simp
  qed (use r Suc.prems in auto)
qed

lemma run_silent: "run p [] = (tr, rest, st) \<Longrightarrow> calls_of tr = [] \<and> rest = []"
  by (induction p arbitrary: tr) (auto split: prod.splits)

text \<open>
  The interface of a loop whose every round waits for at least one reply: as many rounds as
  replies are enough, and the executions are exactly the paths to a program point where the
  process has ended or waits for a reply.
\<close>

locale waiting_loop =
  fixes body :: "'s \<Rightarrow> 's prog"
  assumes round_consumes: "run (body s) rs = (tr, rest, Looped s') \<Longrightarrow> length rest < length rs"
begin

lemma iterate_not_looped: "length rs \<le> n \<Longrightarrow> iterate body n (body s) rs \<noteq> (tr, Looped s')"
proof (induction n arbitrary: s rs tr)
  case 0
  then show ?case using round_consumes [of s "[]"] by (auto split: prod.splits)
next
  case (Suc n)
  show ?case
  proof
    assume i: "iterate body (Suc n) (body s) rs = (tr, Looped s')"
    obtain tr1 rest st where r: "run (body s) rs = (tr1, rest, st)" by (cases "run (body s) rs") auto
    with i obtain s1 where s1: "st = Looped s1" by (cases st) auto
    with r have "length rest \<le> n" using round_consumes [of s rs tr1 rest s1] Suc.prems by simp
    from Suc.IH [OF this] i r s1 show False by (auto split: prod.splits)
  qed
qed

lemma exec_not_looped: "exec body p rs \<noteq> (tr, Looped s)"
proof
  assume e: "exec body p rs = (tr, Looped s)"
  obtain tr1 rest st where r: "run p rs = (tr1, rest, st)" by (cases "run p rs") auto
  with e obtain s1 tr2 where "st = Looped s1" and i: "iterate body (length rs) (body s1) rest = (tr2, Looped s)"
    by (cases st) (auto simp: exec_def split: prod.splits)
  with run_rest_le [OF r] iterate_not_looped show False by blast
qed

lemma iterate_exec:
  assumes i: "iterate body n p rs = (tr, st)" and st: "\<forall>s. st \<noteq> Looped s"
  shows "exec body p rs = (tr, st)"
proof -
  obtain tr' st' where e: "exec body p rs = (tr', st')" by (cases "exec body p rs")
  then have "\<forall>s. st' \<noteq> Looped s" using exec_not_looped by auto
  then have "iterate body (Suc (length rs) + n) p rs = (tr', st')"
    using e iterate_enough unfolding exec_def by blast
  moreover have "iterate body (n + Suc (length rs)) p rs = (tr, st)"
    using i st by (rule iterate_enough)
  ultimately show ?thesis using e by (simp add: add.commute)
qed

text \<open>A process that gets no reply prints and goes back to its loop at most once before it waits, so
  every point of a path is followed by a stop with the same calls.\<close>

lemma exec_path:
  assumes "steps body p tr q" and "stopped_at st q" and "\<forall>s. st \<noteq> Looped s"
  shows "exec body p (map snd (calls_of tr)) = (tr, st)"
  using steps_iterate [OF assms(1,2)] iterate_exec assms(3) by blast

lemma steps_to_stop:
  assumes "steps body p tr q"
  shows "\<exists>tr' st. exec body p (map snd (calls_of tr)) = (tr @ tr', st) \<and> calls_of tr' = [] \<and>
    (\<forall>n. q = Exit n \<longrightarrow> st = Exited n) \<and> (q = Undefined \<longrightarrow> st = Crashed)"
proof -
  obtain tr1 rest st1 where r1: "run q [] = (tr1, rest, st1)" by (cases "run q []") auto
  then obtain q1 where q1: "steps body q tr1 q1" "stopped_at st1 q1" using run_steps by blast
  have s1: "calls_of tr1 = []" using run_silent [OF r1] by simp
  have p1: "steps body p (tr @ tr1) q1" using assms q1(1) by (rule steps_trans)
  show ?thesis
  proof (cases "\<exists>v. st1 = Looped v")
    case False
    then show ?thesis
      using exec_path [OF p1 q1(2)] s1 r1 by (intro exI [of _ tr1] exI [of _ st1]) auto
  next
    case True
    then obtain v where v: "st1 = Looped v" by blast
    obtain tr2 rest2 st2 where r2: "run (body v) [] = (tr2, rest2, st2)" by (cases "run (body v) []") auto
    then obtain q2 where q2: "steps body (body v) tr2 q2" "stopped_at st2 q2" using run_steps by blast
    have st2: "\<forall>s. st2 \<noteq> Looped s" using round_consumes [of v "[]"] r2 by auto
    have "steps body q1 tr2 q2" using q1(2) q2(1) v by (auto simp: stopped_at_def intro: steps_again)
    then have "exec body p (map snd (calls_of ((tr @ tr1) @ tr2))) = ((tr @ tr1) @ tr2, st2)"
      using exec_path [OF steps_trans [OF p1] q2(2) st2] by blast
    then show ?thesis
      using s1 r1 v run_silent [OF r2] by (intro exI [of _ "tr1 @ tr2"] exI [of _ st2]) auto
  qed
qed

text \<open>A path to a stop is the execution on its replies, and conversely.\<close>

lemma exec_iff_steps:
  assumes "\<forall>s. st \<noteq> Looped s"
  shows "(\<exists>rs. exec body p rs = (tr, st)) \<longleftrightarrow> (\<exists>q. steps body p tr q \<and> stopped_at st q)"
  using assms iterate_steps [of body _ p _ tr st] steps_iterate [of body p tr _ st] iterate_exec
  unfolding exec_def by metis

end

text \<open>An invariant of the loop head over the history, and what holds where a process stops.\<close>

definition holds_at :: "('s \<Rightarrow> event list \<Rightarrow> bool) \<Rightarrow> (event list \<Rightarrow> 's stop \<Rightarrow> bool) \<Rightarrow> event list \<Rightarrow> 's stop \<Rightarrow> bool" where
  "holds_at invar ok h st = (case st of Looped s \<Rightarrow> invar s h | _ \<Rightarrow> ok h st)"

lemma holds_at_simps [simp]:
  "holds_at invar ok h (Looped s) = invar s h" "holds_at invar ok h (Exited n) = ok h (Exited n)"
  "holds_at invar ok h (Waiting c) = ok h (Waiting c)" "holds_at invar ok h Crashed = ok h Crashed"
  by (simp_all add: holds_at_def)

text \<open>A process that waits has used all its replies, and goes on from where it waits.\<close>

lemma run_replies: "run p rs = (tr, rest, st) \<Longrightarrow> map snd (calls_of tr) @ rest = rs \<and> (\<forall>c. st = Waiting c \<longrightarrow> rest = [])"
proof (induction p arbitrary: rs tr)
  case (Sys c k)
  then show ?case by (cases rs) (fastforce split: prod.splits)+
qed (auto split: prod.splits)

lemma iterate_replies: "iterate body n p rs = (tr, Waiting c) \<Longrightarrow> map snd (calls_of tr) = rs"
proof (induction n arbitrary: p rs tr)
  case 0
  then show ?case using run_replies [of p rs] by (auto split: prod.splits)
next
  case (Suc n)
  obtain tr1 rest st1 where r: "run p rs = (tr1, rest, st1)" by (cases "run p rs") auto
  show ?case
  proof (cases st1)
    case (Looped s)
    with r Suc.prems obtain tr2 where "iterate body n (body s) rest = (tr2, Waiting c)" and "tr = tr1 @ tr2"
      by (auto split: prod.splits)
    then show ?thesis using Suc.IH [of "body s" rest tr2] run_replies [OF r] by simp
  qed (use r Suc.prems run_replies [OF r] in auto)
qed

lemma exec_replies: "exec body p rs = (tr, Waiting c) \<Longrightarrow> map snd (calls_of tr) = rs"
  unfolding exec_def by (rule iterate_replies)

locale loop_invariant = waiting_loop body for body :: "'s \<Rightarrow> 's prog" +
  fixes invar :: "'s \<Rightarrow> event list \<Rightarrow> bool" and ok :: "event list \<Rightarrow> 's stop \<Rightarrow> bool"
  assumes round_inv: "invar s h \<Longrightarrow> run (body s) rs = (tr, rest, st) \<Longrightarrow> holds_at invar ok (h @ tr) st"
begin

lemma iterate_ok: "invar s h \<Longrightarrow> iterate body n (body s) rs = (tr, st) \<Longrightarrow> holds_at invar ok (h @ tr) st"
proof (induction n arbitrary: s h rs tr)
  case 0
  then show ?case using round_inv by (auto split: prod.splits)
next
  case (Suc n)
  obtain tr1 rest st1 where r: "run (body s) rs = (tr1, rest, st1)" by (cases "run (body s) rs") auto
  then have h: "holds_at invar ok (h @ tr1) st1" using Suc.prems(1) by (intro round_inv)
  show ?case
  proof (cases st1)
    case (Looped s')
    with r Suc.prems(2) obtain tr2 where "iterate body n (body s') rest = (tr2, st)" and "tr = tr1 @ tr2"
      by (auto split: prod.splits)
    with Suc.IH [of s' "h @ tr1" rest tr2] h Looped show ?thesis by simp
  qed (use r Suc.prems h in auto)
qed

text \<open>Where a process waits: before the loop, or in a round that began with the invariant.\<close>

lemma iterate_waits:
  "invar s h \<Longrightarrow> iterate body n (body s) rs = (tr, Waiting c) \<Longrightarrow>
   \<exists>s' tr1 rs2 tr2. invar s' (h @ tr1) \<and> steps body (Again s) tr1 (Again s') \<and> tr = tr1 @ tr2 \<and>
     run (body s') rs2 = (tr2, [], Waiting c)"
proof (induction n arbitrary: s h rs tr)
  case 0
  then obtain rest where r: "run (body s) rs = (tr, rest, Waiting c)" by (auto split: prod.splits)
  then have "rest = []" using run_replies by blast
  with 0 r show ?case by (intro exI [of _ s] exI [of _ "[]"] exI [of _ rs] exI [of _ tr]) (auto intro: steps_refl)
next
  case (Suc n)
  obtain tr1 rest st1 where r: "run (body s) rs = (tr1, rest, st1)" by (cases "run (body s) rs") auto
  then have h: "holds_at invar ok (h @ tr1) st1" using Suc.prems(1) by (intro round_inv)
  show ?case
  proof (cases st1)
    case (Looped s1)
    with r Suc.prems(2) obtain tr2 where i: "iterate body n (body s1) rest = (tr2, Waiting c)" and tr: "tr = tr1 @ tr2"
      by (auto split: prod.splits)
    have "steps body (Again s) tr1 (Again s1)"
      using run_steps [OF r, of body] Looped by (auto simp: stopped_at_def intro: steps_again)
    moreover obtain s' tr3 rs2 tr4 where "invar s' ((h @ tr1) @ tr3)" "steps body (Again s1) tr3 (Again s')"
      "tr2 = tr3 @ tr4" "run (body s') rs2 = (tr4, [], Waiting c)"
      using Suc.IH [of s1 "h @ tr1" rest tr2] h Looped i by auto
    ultimately show ?thesis
      using tr steps_trans [of body "Again s" tr1 "Again s1" tr3 "Again s'"]
      by (intro exI [of _ s'] exI [of _ "tr1 @ tr3"] exI [of _ rs2] exI [of _ tr4]) auto
  next
    case (Waiting c')
    then have "run (body s) rs = (tr, rest, Waiting c)" using r Suc.prems(2) by auto
    moreover then have "rest = []" using run_replies by blast
    ultimately show ?thesis using Suc.prems(1) by (intro exI [of _ s] exI [of _ "[]"] exI [of _ rs] exI [of _ tr]) (auto intro: steps_refl)
  qed (use r Suc.prems in auto)
qed

lemma exec_waits:
  assumes first: "\<And>tr rest st. run p rs = (tr, rest, st) \<Longrightarrow> holds_at invar ok tr st"
    and e: "exec body p rs = (tr, Waiting c)"
  shows "run p rs = (tr, [], Waiting c) \<or>
    (\<exists>s h rs2 tr2. invar s h \<and> steps body p h (Again s) \<and> tr = h @ tr2 \<and> run (body s) rs2 = (tr2, [], Waiting c))"
proof -
  obtain tr1 rest st1 where r: "run p rs = (tr1, rest, st1)" by (cases "run p rs") auto
  then have h: "holds_at invar ok tr1 st1" by (rule first)
  show ?thesis
  proof (cases st1)
    case (Looped s)
    with r e obtain tr2 where i: "iterate body (length rs) (body s) rest = (tr2, Waiting c)" and tr: "tr = tr1 @ tr2"
      by (auto simp: exec_def split: prod.splits)
    have p: "steps body p tr1 (Again s)" using run_steps [OF r, of body] Looped by (auto simp: stopped_at_def)
    obtain s' tr3 rs2 tr4 where "invar s' (tr1 @ tr3)" "steps body (Again s) tr3 (Again s')"
      "tr2 = tr3 @ tr4" "run (body s') rs2 = (tr4, [], Waiting c)"
      using iterate_waits [OF _ i, of tr1] h Looped by auto
    then show ?thesis
      using tr steps_trans [OF p, of tr3 "Again s'"] by (metis append_assoc)
  next
    case (Waiting c')
    then have "run p rs = (tr, rest, Waiting c)" using r e by (auto simp: exec_def)
    then show ?thesis using run_replies by blast
  qed (use r e in \<open>auto simp: exec_def\<close>)
qed

text \<open>From a point where a process waits, every path of further replies is its execution.\<close>

lemma exec_continues:
  assumes "exec body p rs = (tr, Waiting c)" and "steps body p (tr @ tr') q" and "stopped_at st q" and "\<forall>s. st \<noteq> Looped s"
  shows "exec body p (rs @ map snd (calls_of tr')) = (tr @ tr', st)"
proof -
  obtain n where "iterate body n p (map snd (calls_of (tr @ tr'))) = (tr @ tr', st)"
    using steps_iterate [OF assms(2,3)] by blast
  then show ?thesis using iterate_exec assms(4) exec_replies [OF assms(1)] by simp
qed

lemma exec_serves:
  assumes "exec body p rs = (tr, Waiting c)" and "steps body p tr (Again s)"
    and r: "run (body s) us = (tr', [], st)" and st: "\<forall>s. st \<noteq> Looped s"
  shows "exec body p (rs @ us) = (tr @ tr', st)"
proof -
  obtain q where "steps body (body s) tr' q" and q: "stopped_at st q" using run_steps [OF r] by blast
  then have "steps body p (tr @ tr') q" using assms(2) by (blast intro: steps_trans steps_again)
  from exec_continues [OF assms(1) this q st] show ?thesis using run_replies [OF r] by simp
qed

lemma exec_serves_twice:
  assumes "exec body p rs = (tr, Waiting c)" and "steps body p tr (Again s)"
    and r: "run (body s) us = (tr', [], Looped s')" and w: "run (body s') [] = ([], [], Waiting c')"
  shows "exec body p (rs @ us) = (tr @ tr', Waiting c')"
proof -
  have "steps body (body s) tr' (Again s')" using run_steps [OF r, of body] by (auto simp: stopped_at_def)
  moreover obtain q where "steps body (body s') [] q" and q: "stopped_at (Waiting c') q" using run_steps [OF w] by blast
  ultimately have "steps body p (tr @ tr' @ []) q" using assms(2) by (blast intro: steps_trans steps_again)
  from exec_continues [OF assms(1), of "tr'" q "Waiting c'"] this q show ?thesis using run_replies [OF r] by simp
qed

lemma exec_ok:
  assumes first: "\<And>tr rest st. run p rs = (tr, rest, st) \<Longrightarrow> holds_at invar ok tr st"
    and e: "exec body p rs = (tr, st)"
  shows "ok tr st"
proof -
  obtain tr1 rest st1 where r: "run p rs = (tr1, rest, st1)" by (cases "run p rs") auto
  then have h: "holds_at invar ok tr1 st1" by (rule first)
  have "holds_at invar ok tr st"
  proof (cases st1)
    case (Looped s)
    with r e obtain tr2 where "iterate body (length rs) (body s) rest = (tr2, st)" and "tr = tr1 @ tr2"
      by (auto simp: exec_def split: prod.splits)
    with iterate_ok [of s tr1 "length rs" rest tr2 st] h Looped show ?thesis by simp
  qed (use r e h in \<open>auto simp: exec_def\<close>)
  then show ?thesis using e exec_not_looped by (cases st) auto
qed

end

section \<open>Reading a trace\<close>

text \<open>The chunks that a program received on a descriptor and those that it asked the system to send
  on it.\<close>

definition chunks_in :: "int \<Rightarrow> event list \<Rightarrow> bytes list" where
  "chunks_in fd tr = concat (map (\<lambda>(c, r). case c of
      Recv fd' n \<Rightarrow> if fd' \<noteq> fd \<or> received n r = [] then [] else [received n r]
    | _ \<Rightarrow> []) (calls_of tr))"

definition chunks_out :: "int \<Rightarrow> event list \<Rightarrow> bytes list" where
  "chunks_out fd tr = concat (map (\<lambda>(c, r). case c of
      Send fd' bs \<Rightarrow> if fd' = fd then [bs] else [] | _ \<Rightarrow> []) (calls_of tr))"

text \<open>The descriptors that a program obtained and the ones that it closed.\<close>

definition opened :: "event list \<Rightarrow> int list" where
  "opened tr = concat (map (\<lambda>(c, r). case c of
      Socket d t p \<Rightarrow> if ret r < 0 then [] else [ret r]
    | Accept fd \<Rightarrow> if ret r < 0 then [] else [ret r]
    | Open path \<Rightarrow> if ret r < 0 then [] else [ret r]
    | _ \<Rightarrow> []) (calls_of tr))"

definition closed :: "event list \<Rightarrow> int list" where
  "closed tr = concat (map (\<lambda>(c, r). case c of Close fd \<Rightarrow> [fd] | _ \<Rightarrow> []) (calls_of tr))"

lemmas trace_defs = chunks_in_def chunks_out_def opened_def closed_def

lemma trace_simps [simp]:
  "chunks_in fd [] = []" "chunks_in fd (Shown x # tr) = chunks_in fd tr"
  "chunks_in fd (tr @ tr') = chunks_in fd tr @ chunks_in fd tr'"
  "chunks_out fd [] = []" "chunks_out fd (Shown x # tr) = chunks_out fd tr"
  "chunks_out fd (tr @ tr') = chunks_out fd tr @ chunks_out fd tr'"
  "opened [] = []" "opened (Shown x # tr) = opened tr" "opened (tr @ tr') = opened tr @ opened tr'"
  "closed [] = []" "closed (Shown x # tr) = closed tr" "closed (tr @ tr') = closed tr @ closed tr'"
  by (simp_all add: trace_defs)

text \<open>The bytes that a call reads from an object.\<close>

definition bytes_at :: "bytes \<Rightarrow> int \<Rightarrow> bytes option" where
  "bytes_at buf n = (if 0 \<le> n \<and> nat n \<le> length buf then Some (take (nat n) buf) else None)"

lemma received_length: "length (received n r) \<le> n"
  by (simp add: received_def)

lemma received_failed [simp]: "ret r < 0 \<Longrightarrow> received n r = []"
  by (simp add: received_def)

lemma received_len_simps:
  "received_len n r < 0 \<longleftrightarrow> ret r < 0" "\<not> ret r < 0 \<Longrightarrow> received_len n r = int (length (received n r))"
  by (simp_all add: received_len_def)

lemma store_received: "n \<le> length buf \<Longrightarrow>
  write_bytes buf 0 (received n r) = Some (received n r @ drop (length (received n r)) buf)"
  using received_length [of n r] by (simp add: write_bytes_def)

lemma event_simps [simp]:
  "chunks_in fd (Called c r # tr) =
     (case c of Recv fd' n \<Rightarrow> if fd' \<noteq> fd \<or> received n r = [] then [] else [received n r] | _ \<Rightarrow> []) @ chunks_in fd tr"
  "chunks_out fd (Called c r # tr) = (case c of Send fd' bs \<Rightarrow> if fd' = fd then [bs] else [] | _ \<Rightarrow> []) @ chunks_out fd tr"
  "closed (Called c r # tr) = (case c of Close fd \<Rightarrow> [fd] | _ \<Rightarrow> []) @ closed tr"
  by (simp_all add: trace_defs)

lemma opened_simps [simp]:
  "opened (Called (Socket d t p) r # tr) = (if ret r < 0 then opened tr else ret r # opened tr)"
  "opened (Called (Accept fd) r # tr) = (if ret r < 0 then opened tr else ret r # opened tr)"
  "opened (Called (Recv fd n) r # tr) = opened tr" "opened (Called (Send fd bs) r # tr) = opened tr"
  "opened (Called (Close fd) r # tr) = opened tr" "opened (Called (Bind fd a) r # tr) = opened tr"
  "opened (Called (Open path) r # tr) = (if ret r < 0 then opened tr else ret r # opened tr)"
  "opened (Called (Recvfrom fd n) r # tr) = opened tr" "opened (Called (Sendto fd bs a) r # tr) = opened tr"
  "opened (Called (Read fd n) r # tr) = opened tr" "opened (Called (Write fd bs) r # tr) = opened tr"
  "opened (Called (Ioctl fd bs flags) r # tr) = opened tr" "opened (Called (System bs) r # tr) = opened tr"
  "opened (Called (Select count fds) r # tr) = opened tr" "opened (Called (Malloc n) r # tr) = opened tr"
  "opened (Called Free r # tr) = opened tr"
  "opened (Called (Setsockopt fd opt) r # tr) = opened tr" "opened (Called (Listen fd backlog) r # tr) = opened tr"
  by (simp_all add: trace_defs)

text \<open>A zeroed buffer after a receiving call: the bytes, then zeros up to its capacity.\<close>

definition filled :: "nat \<Rightarrow> nat \<Rightarrow> reply \<Rightarrow> bytes" where
  "filled cap n r = received n r @ replicate (cap - length (received n r)) 0"

lemma length_filled [simp]: "n \<le> cap \<Longrightarrow> length (filled cap n r) = cap"
  using received_length [of n r] by (simp add: filled_def)

lemma filled_string:
  assumes "n < cap"
  shows "c_string (filled cap n r) = Some (takeWhile (\<lambda>b. b \<noteq> 0) (received n r))"
proof -
  have "cap - length (received n r) \<noteq> 0" using received_length [of n r] assms by linarith
  then obtain m where "cap - length (received n r) = Suc m" by (cases "cap - length (received n r)") auto
  then have split: "filled cap n r = received n r @ 0 # replicate m 0" by (simp add: filled_def)
  show ?thesis
  proof (cases "0 \<in> set (received n r)")
    case True
    then show ?thesis by (simp add: split c_string_def takeWhile_append1 [OF True])
  next
    case False
    then show ?thesis by (simp add: split c_string_append_zero takeWhile_no_zero)
  qed
qed

lemma zeroed_buffer:
  assumes "length buf = cap" and "n \<le> cap"
  shows "memset buf 0 0 cap = Some (replicate cap 0)"
    and "write_bytes (replicate cap 0) 0 (received n r) = Some (filled cap n r)"
  using assms store_received [of n "replicate cap 0" r]
  by (simp_all add: memset_def write_bytes_def filled_def)

definition pending :: "int \<Rightarrow> 's stop \<Rightarrow> bytes list" where
  "pending fd st = (case st of Waiting (Send fd' bs) \<Rightarrow> if fd' = fd then [bs] else [] | _ \<Rightarrow> [])"

text \<open>Replies for concrete executions, and the bytes that the system took from the sent chunks.\<close>

definition reply_ret :: "int \<Rightarrow> reply" where
  "reply_ret n = \<lparr>ret = n, payload = [], peer = \<lparr>sin_port = 0, sin_addr = 0\<rparr>, ready = []\<rparr>"

definition reply_data :: "bytes \<Rightarrow> sockaddr_in \<Rightarrow> reply" where
  "reply_data bs a = \<lparr>ret = int (length bs), payload = bs, peer = a, ready = []\<rparr>"

definition reply_ready :: "int list \<Rightarrow> reply" where
  "reply_ready fds = \<lparr>ret = int (length fds), payload = [], peer = \<lparr>sin_port = 0, sin_addr = 0\<rparr>, ready = fds\<rparr>"

lemma reply_simps [simp]:
  "ret (reply_ret n) = n" "ret (reply_data bs a) = int (length bs)" "payload (reply_data bs a) = bs"
  "peer (reply_data bs a) = a" "ret (reply_ready fds) = int (length fds)" "ready (reply_ready fds) = fds"
  "received cap (reply_data bs a) = take cap bs"
  by (simp_all add: reply_ret_def reply_data_def reply_ready_def received_def)

definition delivered :: "int \<Rightarrow> event list \<Rightarrow> bytes" where
  "delivered fd tr = concat (map (\<lambda>(c, r). case c of
      Send fd' bs \<Rightarrow> if fd' \<noteq> fd \<or> ret r < 0 then [] else take (nat (ret r)) bs
    | _ \<Rightarrow> []) (calls_of tr))"

lemma delivered_simps [simp]:
  "delivered fd [] = []" "delivered fd (Shown x # tr) = delivered fd tr"
  "delivered fd (tr @ tr') = delivered fd tr @ delivered fd tr'"
  "delivered fd (Called c r # tr) =
     (case c of Send fd' bs \<Rightarrow> if fd' \<noteq> fd \<or> ret r < 0 then [] else take (nat (ret r)) bs | _ \<Rightarrow> []) @ delivered fd tr"
  by (simp_all add: delivered_def)

text \<open>The descriptor that the first successful call of some kind returned, or -1.\<close>

definition first_fd :: "(call \<Rightarrow> bool) \<Rightarrow> event list \<Rightarrow> int" where
  "first_fd made tr =
     (case filter (\<lambda>(c, r). made c \<and> 0 \<le> ret r) (calls_of tr) of [] \<Rightarrow> - 1 | cr # crs \<Rightarrow> ret (snd cr))"

lemma first_fd_simps [simp]:
  "first_fd made [] = - 1" "first_fd made (Shown x # tr) = first_fd made tr"
  "first_fd made (Called c r # tr) = (if made c \<and> 0 \<le> ret r then ret r else first_fd made tr)"
  by (simp_all add: first_fd_def)

lemma first_fd_append [simp]:
  "first_fd made (tr @ tr') = (if first_fd made tr = - 1 then first_fd made tr' else first_fd made tr)"
proof (induction tr)
  case (Cons ev tr)
  then show ?case by (cases ev) auto
qed simp

text \<open>The descriptor that the first \<open>socket\<close> returned: the socket of a process that makes one.\<close>

abbreviation the_socket :: "event list \<Rightarrow> int" where
  "the_socket \<equiv> first_fd is_Socket"

text \<open>Every transfer of data is on the descriptors \<open>file\<close> and \<open>sock\<close>: files are read and written on
  the one, sockets on the other.\<close>

definition io_on :: "int \<Rightarrow> int \<Rightarrow> call \<Rightarrow> bool" where
  "io_on file sock c = (case c of
      Read fd n \<Rightarrow> fd = file | Write fd bs \<Rightarrow> fd = file
    | Recv fd n \<Rightarrow> fd = sock | Send fd bs \<Rightarrow> fd = sock
    | Recvfrom fd n \<Rightarrow> fd = sock | Sendto fd bs a \<Rightarrow> fd = sock
    | _ \<Rightarrow> True)"

lemma io_on_simps [simp]:
  "io_on file sock (Read fd n) \<longleftrightarrow> fd = file" "io_on file sock (Write fd bs) \<longleftrightarrow> fd = file"
  "io_on file sock (Recv fd n) \<longleftrightarrow> fd = sock" "io_on file sock (Send fd bs) \<longleftrightarrow> fd = sock"
  "io_on file sock (Recvfrom fd n) \<longleftrightarrow> fd = sock" "io_on file sock (Sendto fd bs a) \<longleftrightarrow> fd = sock"
  "io_on file sock (Socket d t p)" "io_on file sock (Setsockopt fd opt)" "io_on file sock (Bind fd a)"
  "io_on file sock (Listen fd backlog)" "io_on file sock (Accept fd)" "io_on file sock (Close fd)"
  "io_on file sock (Open path)" "io_on file sock (Ioctl fd bs flags)" "io_on file sock (System bs)"
  "io_on file sock (Select count fds)" "io_on file sock (Malloc n)" "io_on file sock Free"
  by (simp_all add: io_on_def)

definition all_io :: "int \<Rightarrow> int \<Rightarrow> event list \<Rightarrow> bool" where
  "all_io file sock tr \<longleftrightarrow> list_all (io_on file sock \<circ> fst) (calls_of tr)"

lemma all_io_simps [simp]:
  "all_io file sock []" "all_io file sock (Shown x # tr) \<longleftrightarrow> all_io file sock tr"
  "all_io file sock (Called c r # tr) \<longleftrightarrow> io_on file sock c \<and> all_io file sock tr"
  "all_io file sock (tr @ tr') \<longleftrightarrow> all_io file sock tr \<and> all_io file sock tr'"
  "all_io file sock (map Shown outs)"
  by (simp_all add: all_io_def)

text \<open>The same of the call in which a process waits.\<close>

definition stop_io :: "int \<Rightarrow> int \<Rightarrow> 's stop \<Rightarrow> bool" where
  "stop_io file sock st \<longleftrightarrow> (case st of Waiting c \<Rightarrow> io_on file sock c | _ \<Rightarrow> True)"

lemma stop_io_simps [simp]:
  "stop_io file sock (Exited n)" "stop_io file sock Crashed" "stop_io file sock (Looped s)"
  "stop_io file sock (Waiting c) \<longleftrightarrow> io_on file sock c"
  by (simp_all add: stop_io_def)

text \<open>The datagrams that a program received and sent, with their peers.\<close>

definition datagrams_in :: "event list \<Rightarrow> (bytes \<times> sockaddr_in) list" where
  "datagrams_in tr = concat (map (\<lambda>(c, r). case c of
      Recvfrom fd n \<Rightarrow> if ret r < 0 then [] else [(received n r, peer r)]
    | _ \<Rightarrow> []) (calls_of tr))"

definition datagrams_out :: "event list \<Rightarrow> (bytes \<times> sockaddr_in) list" where
  "datagrams_out tr = concat (map (\<lambda>(c, r). case c of Sendto fd bs a \<Rightarrow> [(bs, a)] | _ \<Rightarrow> []) (calls_of tr))"

lemma datagram_simps [simp]:
  "datagrams_in [] = []" "datagrams_in (Shown x # tr) = datagrams_in tr"
  "datagrams_in (tr @ tr') = datagrams_in tr @ datagrams_in tr'"
  "datagrams_in (Called c r # tr) =
     (case c of Recvfrom fd n \<Rightarrow> if ret r < 0 then [] else [(received n r, peer r)] | _ \<Rightarrow> []) @ datagrams_in tr"
  "datagrams_out [] = []" "datagrams_out (Shown x # tr) = datagrams_out tr"
  "datagrams_out (tr @ tr') = datagrams_out tr @ datagrams_out tr'"
  "datagrams_out (Called c r # tr) = (case c of Sendto fd bs a \<Rightarrow> [(bs, a)] | _ \<Rightarrow> []) @ datagrams_out tr"
  by (simp_all add: datagrams_in_def datagrams_out_def)

definition pending_datagram :: "'s stop \<Rightarrow> (bytes \<times> sockaddr_in) list" where
  "pending_datagram st = (case st of Waiting (Sendto fd bs a) \<Rightarrow> [(bs, a)] | _ \<Rightarrow> [])"

lemma pending_datagram_simps [simp]:
  "pending_datagram (Exited n) = []" "pending_datagram Crashed = []" "pending_datagram (Looped s) = []"
  "pending_datagram (Waiting c) = (case c of Sendto fd bs a \<Rightarrow> [(bs, a)] | _ \<Rightarrow> [])"
  by (simp_all add: pending_datagram_def)

lemma event_shown [simp]:
  "chunks_in fd (map Shown outs) = []" "chunks_out fd (map Shown outs) = []" "opened (map Shown outs) = []"
  "closed (map Shown outs) = []" "datagrams_in (map Shown outs) = []" "datagrams_out (map Shown outs) = []"
  by (simp_all add: trace_defs datagrams_in_def datagrams_out_def)

section \<open>Addresses as text\<close>

lemma digit_string_first: "0 < n \<Longrightarrow> hd (digit_string u 10 n) \<noteq> CHR ''0''"
proof (induction n rule: less_induct)
  case (less n)
  show ?case
  proof (cases "n < 10")
    case True
    have "digit_char u n \<noteq> CHR ''0''"
    proof
      assume "digit_char u n = CHR ''0''"
      then have "digit_val (digit_char u n) = 0" by (simp add: digit_val_def)
      with True less.prems show False by (simp add: digit_val_digit_char)
    qed
    with True show ?thesis by (simp add: digit_string_less)
  next
    case False
    then show ?thesis
      using less.IH [of "n div 10"] by (simp add: digit_string_ge hd_append digit_string_nonempty)
  qed
qed

lemma octet_field_show_dec: "n < 256 \<Longrightarrow> octet_field (show_dec n) = Some (of_nat n)"
proof -
  assume n: "n < 256"
  have ne: "show_dec n \<noteq> []" by (simp add: show_dec_def digit_string_nonempty)
  have "length (show_dec n) = 1" if "show_dec n ! 0 = CHR ''0''"
  proof -
    have "n = 0" using that ne digit_string_first [of n False] by (auto simp: show_dec_def hd_conv_nth)
    then show ?thesis by (simp add: show_dec_def digit_string_less)
  qed
  then show ?thesis
    using n ne length_show_dec [OF n] show_dec_char [of _ n]
    by (simp add: octet_field_def number_of_show_dec list_all_iff)
qed

lemma split_dots_dotted: "split_dots (dotted [a, b, c, d]) = [show_dec a, show_dec b, show_dec c, show_dec d]"
  by (simp add: dotted_def split_dots_dot split_dots_plain dot_not_in_show_dec)

lemma inet_pton_dotted:
  "inet_pton e (dotted [unat a, unat b, unat c, unat d]) = Some (dec e [a, b, c, d])"
  by (simp add: inet_pton_def split_dots_dotted octet_field_show_dec)

lemma localhost_dotted:
  "dotted [unat (127 :: u8), unat (0 :: u8), unat (0 :: u8), unat (1 :: u8)] = ''127.0.0.1''"
  by code_simp

lemma inet_pton_localhost: "inet_pton e ''127.0.0.1'' = Some (dec e [127, 0, 0, 1])"
  using inet_pton_dotted [of e 127 0 0 1] unfolding localhost_dotted .

lemma inet_pton_ntoa: "inet_pton e (inet_ntoa e w) = Some w"
proof -
  have "length (enc e w) = 4" by simp
  then obtain a b c d where w: "enc e w = [a, b, c, d]" by (rule length_4E)
  have "dec e (enc e w) = w" by (rule dec_enc [where n = 4]) simp
  then have "dec e [a, b, c, d] = w" by (simp only: w)
  then show ?thesis by (simp add: inet_ntoa_def w inet_pton_dotted)
qed

lemma run_Sys_consumes: "run (Sys c k) rs = (tr, rest, Looped s) \<Longrightarrow> length rest < length rs"
  using run_rest_le by (cases rs) (fastforce split: prod.splits)+

end
