(* ===== verification/TcpEcho.thy ===== *)
theory TcpEcho
  imports Posix "HOL-Library.Multiset"
begin

text \<open>
  The TCP echo server of coding-problems/01_tcp_echo_server.c: the set-up with its error
  paths, the echo loop and the clean-up. The variables that live across rounds of the loop
  are a record; the uninitialised \<open>buffer\<close> is an argument.
\<close>

section \<open>The code\<close>

record tcp_vars =
  server_fd :: int
  client_fd :: int
  buffer :: bytes

definition tcp_cleanup :: "tcp_vars \<Rightarrow> tcp_vars prog" where
  "tcp_cleanup v =
     Sys (Close (client_fd v)) (\<lambda>_. Sys (Close (server_fd v)) (\<lambda>_.
     Say (Printf (''[+] Server closed'' @ nl) []) (Exit 0)))"

text \<open>One round of \<open>while (1)\<close>; a \<open>break\<close> goes on with the clean-up.\<close>

definition tcp_echo_round :: "tcp_vars \<Rightarrow> tcp_vars prog" where
  "tcp_echo_round v =
     attempt (memset (buffer v) 0 0 1024) (\<lambda>buf.
     Sys (Recv (client_fd v) (1024 - 1)) (\<lambda>r.
     attempt (write_bytes buf 0 (received (1024 - 1) r)) (\<lambda>buf.
     let bytes_received = received_len (1024 - 1) r; v = v\<lparr>buffer := buf\<rparr>
     in if bytes_received < 0 then Say (Perror ''Receive failed'') (tcp_cleanup v)
        else if bytes_received = 0 then Say (Printf (''[+] Client disconnected'' @ nl) []) (tcp_cleanup v)
        else
          attempt (c_string buf) (\<lambda>text.
          Say (Printf ''[+] Received: %s'' [CStr (string_of text)])
          (attempt (bytes_at buf bytes_received) (\<lambda>bs.
          Sys (Send (client_fd v) bs) (\<lambda>r.
          if ret r < 0 then Say (Perror ''Send failed'') (tcp_cleanup v)
          else Again v)))))))"

definition tcp_server_addr :: "endian \<Rightarrow> sockaddr_in" where
  "tcp_server_addr e = \<lparr>sin_port = hton e 8080, sin_addr = 0\<rparr>"

definition tcp_fail :: "int \<Rightarrow> string \<Rightarrow> tcp_vars prog" where
  "tcp_fail sfd msg = Say (Perror msg) (Sys (Close sfd) (\<lambda>_. Exit 1))"

definition tcp_main :: "endian \<Rightarrow> bytes \<Rightarrow> tcp_vars prog" where
  "tcp_main e buf =
     Sys (Socket AF_INET SOCK_STREAM 0) (\<lambda>r. let sfd = ret r in
     if sfd < 0 then Say (Perror ''Socket creation failed'') (Exit 1) else
     Say (Printf (''[+] Socket created successfully'' @ nl) [])
     (Sys (Setsockopt sfd (SO_REUSEADDR 1)) (\<lambda>r.
     if ret r < 0 then tcp_fail sfd ''Setsockopt failed'' else
     Sys (Bind sfd (tcp_server_addr e)) (\<lambda>r.
     if ret r < 0 then tcp_fail sfd ''Bind failed'' else
     Say (Printf (''[+] Bound to port %d'' @ nl) [CInt 8080])
     (Sys (Listen sfd 5) (\<lambda>r.
     if ret r < 0 then tcp_fail sfd ''Listen failed'' else
     Say (Printf (''[+] Listening for connections...'' @ nl) [])
     (Sys (Accept sfd) (\<lambda>r. let cfd = ret r; client_addr = peer r in
     if cfd < 0 then tcp_fail sfd ''Accept failed'' else
     Say (Printf (''[+] Client connected from %s:%d'' @ nl)
            [CStr (inet_ntoa e (sin_addr client_addr)), of_u (ntoh e (sin_port client_addr))])
     (Again \<lparr>server_fd = sfd, client_fd = cfd, buffer = buf\<rparr>)))))))))"

section \<open>The round in closed form\<close>

definition tcp_refill :: "tcp_vars \<Rightarrow> reply \<Rightarrow> tcp_vars" where
  "tcp_refill v r = v\<lparr>buffer := filled 1024 1023 r\<rparr>"

lemma tcp_refill_simps [simp]:
  "server_fd (tcp_refill v r) = server_fd v" "client_fd (tcp_refill v r) = client_fd v"
  "length (buffer (tcp_refill v r)) = 1024"
  by (simp_all add: tcp_refill_def)

lemma tcp_echo_round_eq:
  assumes "length (buffer v) = 1024"
  shows "tcp_echo_round v = Sys (Recv (client_fd v) 1023) (\<lambda>r.
    if ret r < 0 then Say (Perror ''Receive failed'') (tcp_cleanup (tcp_refill v r))
    else if received 1023 r = [] then Say (Printf (''[+] Client disconnected'' @ nl) []) (tcp_cleanup (tcp_refill v r))
    else Say (Printf ''[+] Received: %s'' [CStr (string_of (takeWhile (\<lambda>b. b \<noteq> 0) (received 1023 r)))])
      (Sys (Send (client_fd v) (received 1023 r)) (\<lambda>r'.
        if ret r' < 0 then Say (Perror ''Send failed'') (tcp_cleanup (tcp_refill v r))
        else Again (tcp_refill v r))))"
proof -
  have "bytes_at (filled 1024 1023 r) (int (length (received 1023 r))) = Some (received 1023 r)" for r
    using received_length [of 1023 r] by (simp add: bytes_at_def filled_def)
  with zeroed_buffer [OF assms, of 1023] show ?thesis
    by (auto simp: tcp_echo_round_def received_len_def filled_string tcp_refill_def Let_def fun_eq_iff)
qed

text \<open>The connection with the client is the descriptor that \<open>accept\<close> returned.\<close>

abbreviation connection :: "event list \<Rightarrow> int" where
  "connection \<equiv> first_fd is_Accept"

definition tcp_inv :: "tcp_vars \<Rightarrow> event list \<Rightarrow> bool" where
  "tcp_inv v h \<longleftrightarrow> length (buffer v) = 1024 \<and> 0 \<le> client_fd v \<and> 0 \<le> server_fd v \<and>
     opened h = [server_fd v, client_fd v] \<and> closed h = [] \<and> connection h = client_fd v \<and>
     all_io (- 1) (client_fd v) h \<and> chunks_in (client_fd v) h = chunks_out (client_fd v) h"

definition tcp_ok :: "event list \<Rightarrow> tcp_vars stop \<Rightarrow> bool" where
  "tcp_ok tr st \<longleftrightarrow> st \<noteq> Crashed \<and>
     chunks_in (connection tr) tr = chunks_out (connection tr) tr @ pending (connection tr) st \<and>
     all_io (- 1) (connection tr) tr \<and> stop_io (- 1) (connection tr) st \<and>
     (\<forall>n. st = Exited n \<longrightarrow> mset (closed tr) = mset (opened tr) \<and>
       n = (if length (opened tr) = 2 then 0 else 1))"

lemma tcp_round_consumes:
  "run (tcp_echo_round v) rs = (tr, rest, Looped v') \<Longrightarrow> length rest < length rs"
  by (auto simp: tcp_echo_round_def tcp_cleanup_def attempt_def Let_def
      split: list.splits prod.splits if_splits option.splits)

lemma tcp_round_inv:
  assumes "tcp_inv v h" and "run (tcp_echo_round v) rs = (tr, rest, st)"
  shows "holds_at tcp_inv tcp_ok (h @ tr) st"
proof -
  have "length (buffer v) = 1024" using assms(1) by (simp add: tcp_inv_def)
  note eq = tcp_echo_round_eq [OF this]
  show ?thesis
    using assms unfolding eq
    by (auto simp: tcp_cleanup_def tcp_inv_def tcp_ok_def pending_def split: list.splits if_splits prod.splits)
qed

interpretation tcp: loop_invariant tcp_echo_round tcp_inv tcp_ok
  by unfold_locales (rule tcp_round_consumes tcp_round_inv; assumption)+

lemma tcp_main_first:
  assumes "length buf = 1024" and "run (tcp_main e buf) rs = (tr, rest, st)"
  shows "holds_at tcp_inv tcp_ok tr st"
  using assms
  by (auto simp: tcp_main_def tcp_fail_def tcp_inv_def tcp_ok_def pending_def Let_def not_less
      split: list.splits if_splits prod.splits)

lemma tcp_main_ok:
  "length buf = 1024 \<Longrightarrow> exec tcp_echo_round (tcp_main e buf) rs = (tr, st) \<Longrightarrow> tcp_ok tr st"
  by (rule tcp.exec_ok [OF tcp_main_first])

text \<open>A session: the set-up succeeds, the client sends chunks, the system takes some bytes of
  each echoed chunk, and the client disconnects.\<close>

definition tcp_setup :: "int \<Rightarrow> int \<Rightarrow> sockaddr_in \<Rightarrow> reply list" where
  "tcp_setup sfd cfd a =
     [reply_ret sfd, reply_ret 0, reply_ret 0, reply_ret 0, (reply_ret cfd)\<lparr>peer := a\<rparr>]"

definition tcp_session :: "(bytes \<times> int) list \<Rightarrow> reply list" where
  "tcp_session chunks =
     concat (map (\<lambda>(bs, k). [reply_data bs \<lparr>sin_port = 0, sin_addr = 0\<rparr>, reply_ret k]) chunks) @
     [reply_ret 0, reply_ret 0, reply_ret 0]"

definition tcp_report :: "bytes list \<Rightarrow> out list" where
  "tcp_report chunks =
     map (\<lambda>bs. Printf ''[+] Received: %s'' [CStr (string_of (takeWhile (\<lambda>b. b \<noteq> 0) bs))]) chunks @
     [Printf (''[+] Client disconnected'' @ nl) [], Printf (''[+] Server closed'' @ nl) []]"

section \<open>Properties\<close>

text \<open>C11: the server sends back exactly what it receives. For every sequence of replies of the
  system, at the point where it has ended or waits, the chunks passed to \<open>send\<close> on the client's
  connection, with the one in progress, are the chunks received on it, in the same order and
  with the same bounds; nothing is sent or received on another descriptor, and no access was
  outside the buffer, although it is printed as a string.\<close>

theorem tcp_echo_sends_what_it_receives:
  assumes "length buf = 1024" and "exec tcp_echo_round (tcp_main e buf) rs = (tr, st)"
  shows "st \<noteq> Crashed \<and>
    chunks_in (connection tr) tr = chunks_out (connection tr) tr @ pending (connection tr) st \<and>
    all_io (- 1) (connection tr) tr \<and> stop_io (- 1) (connection tr) st"
  using tcp_main_ok [OF assms] by (simp add: tcp_ok_def)

theorem tcp_echo_sends_what_it_receives_witness:
  "\<exists>tr st. exec tcp_echo_round (tcp_main Little (replicate 1024 0))
       (tcp_setup 3 4 \<lparr>sin_port = 0, sin_addr = 0\<rparr> @ [reply_data [104, 105] \<lparr>sin_port = 0, sin_addr = 0\<rparr>]) = (tr, st) \<and>
     st = Waiting (Send 4 [104, 105]) \<and> chunks_in 4 tr = chunks_out 4 tr @ [[104, 105]]"
proof -
  let ?v = "\<lparr>server_fd = 3, client_fd = 4, buffer = replicate 1024 0\<rparr>"
  have b: "length (buffer ?v) = 1024" by simp
  obtain tr where e: "exec tcp_echo_round (tcp_main Little (replicate 1024 0))
       (tcp_setup 3 4 \<lparr>sin_port = 0, sin_addr = 0\<rparr> @ [reply_data [104, 105] \<lparr>sin_port = 0, sin_addr = 0\<rparr>]) =
       (tr, Waiting (Send 4 [104, 105]))" and c: "connection tr = 4"
    by (simp add: exec_def tcp_main_def tcp_setup_def Let_def tcp_echo_round_eq [OF b])
  then show ?thesis
    using tcp_echo_sends_what_it_receives [OF _ e] by (simp add: pending_def)
qed

text \<open>C32: every descriptor is closed exactly once. When the server ends, the closed descriptors
  are those it obtained from \<open>socket\<close> and \<open>accept\<close>; it returns 0 when it had accepted a client
  and 1 otherwise.\<close>

theorem tcp_echo_closes_descriptors:
  assumes "length buf = 1024" and "exec tcp_echo_round (tcp_main e buf) rs = (tr, Exited n)"
  shows "mset (closed tr) = mset (opened tr) \<and> n = (if length (opened tr) = 2 then 0 else 1)"
  using tcp_main_ok [OF assms] by (simp add: tcp_ok_def)

theorem tcp_echo_closes_descriptors_witness:
  "\<exists>tr. exec tcp_echo_round (tcp_main Little (replicate 1024 0)) [reply_ret 3, reply_ret 0, reply_ret (- 1), reply_ret 0] =
       (tr, Exited 1) \<and> closed tr = [3] \<and> mset (closed tr) = mset (opened tr)"
proof -
  obtain tr where e: "exec tcp_echo_round (tcp_main Little (replicate 1024 0))
      [reply_ret 3, reply_ret 0, reply_ret (- 1), reply_ret 0] = (tr, Exited 1)" and c: "closed tr = [3]"
    by (simp add: exec_def tcp_main_def tcp_fail_def Let_def)
  then show ?thesis using tcp_echo_closes_descriptors [OF _ e] by simp
qed

text \<open>No path of the transition relation, whatever the system replies, leads to an access
  outside an object.\<close>

lemma tcp_echo_never_undefined:
  assumes "length buf = 1024"
  shows "\<not> steps tcp_echo_round (tcp_main e buf) tr Undefined"
proof
  assume "steps tcp_echo_round (tcp_main e buf) tr Undefined"
  moreover have "stopped_at Crashed (Undefined :: tcp_vars prog)" by (simp add: stopped_at_def)
  ultimately obtain rs where "exec tcp_echo_round (tcp_main e buf) rs = (tr, Crashed)"
    using tcp.exec_iff_steps [of Crashed "tcp_main e buf" tr] by blast
  with tcp_main_ok [OF assms] show False by (auto simp: tcp_ok_def)
qed

theorem tcp_echo_never_undefined_witness:
  "\<not> steps tcp_echo_round (tcp_main Little (replicate 1024 7)) tr Undefined"
  by (rule tcp_echo_never_undefined) simp

lemma tcp_session_run:
  "length (buffer v) = 1024 \<Longrightarrow> list_all (\<lambda>(bs, k). bs \<noteq> [] \<and> length bs \<le> 1023 \<and> 0 \<le> k) chunks \<Longrightarrow>
   length chunks \<le> n \<Longrightarrow>
   \<exists>tr. iterate tcp_echo_round n (tcp_echo_round v) (tcp_session chunks) = (tr, Exited 0) \<and>
     chunks_out (client_fd v) tr = map fst chunks \<and>
     delivered (client_fd v) tr = concat (map (\<lambda>(bs, k). take (nat k) bs) chunks) \<and>
     all_io (- 1) (client_fd v) tr \<and> closed tr = [client_fd v, server_fd v] \<and> opened tr = [] \<and>
     outs_of tr = tcp_report (map fst chunks)"
proof (induction chunks arbitrary: v n)
  case Nil
  have "received 1023 (reply_ret 0) = []" by (simp add: received_def reply_ret_def)
  with Nil show ?case
    by (cases n) (auto simp: tcp_echo_round_eq tcp_session_def tcp_cleanup_def tcp_report_def)
next
  case (Cons c chunks)
  obtain bs k where c: "c = (bs, k)" by fastforce
  let ?r = "reply_data bs \<lparr>sin_port = 0, sin_addr = 0\<rparr>"
  have s: "tcp_session ((bs, k) # chunks) = ?r # reply_ret k # tcp_session chunks"
    by (simp add: tcp_session_def)
  obtain m where n: "n = Suc m" "length chunks \<le> m" using Cons.prems by (cases n) auto
  have bs: "bs \<noteq> []" "take 1023 bs = bs" "0 \<le> k" using Cons.prems by (auto simp: c)
  obtain tr where tr: "iterate tcp_echo_round m (tcp_echo_round (tcp_refill v ?r)) (tcp_session chunks) = (tr, Exited 0)"
    and rest: "chunks_out (client_fd v) tr = map fst chunks" "delivered (client_fd v) tr = concat (map (\<lambda>(bs, k). take (nat k) bs) chunks)"
      "all_io (- 1) (client_fd v) tr" "closed tr = [client_fd v, server_fd v]" "opened tr = []"
      "outs_of tr = tcp_report (map fst chunks)"
    using Cons.IH [of "tcp_refill v ?r" m] Cons.prems n by auto
  show ?case
    using tr rest bs by (simp add: s n(1) tcp_echo_round_eq [OF Cons.prems(1)] c tcp_report_def)
qed

text \<open>C31: a whole session. When the set-up succeeds, the client sends any chunks of 1 to 1023
  bytes and disconnects, the server reports each chunk up to its first zero byte, passes each
  to \<open>send\<close> as a whole on the client's connection and on no other descriptor, closes the
  connection and then the listening socket, and returns 0. What \<open>send\<close> does not take of a chunk
  is lost: the bytes delivered on the connection are the taken prefixes.\<close>

theorem tcp_echo_session:
  assumes "length buf = 1024" and "0 \<le> sfd" and "0 \<le> cfd"
    and "list_all (\<lambda>(bs, k). bs \<noteq> [] \<and> length bs \<le> 1023 \<and> 0 \<le> k) chunks"
  shows "\<exists>tr. exec tcp_echo_round (tcp_main e buf) (tcp_setup sfd cfd a @ tcp_session chunks) = (tr, Exited 0) \<and>
     chunks_out cfd tr = map fst chunks \<and>
     delivered cfd tr = concat (map (\<lambda>(bs, k). take (nat k) bs) chunks) \<and>
     all_io (- 1) cfd tr \<and> opened tr = [sfd, cfd] \<and> closed tr = [cfd, sfd] \<and>
     drop 4 (outs_of tr) = tcp_report (map fst chunks)"
proof -
  let ?v = "\<lparr>server_fd = sfd, client_fd = cfd, buffer = buf\<rparr>"
  let ?n = "length (tcp_setup sfd cfd a @ tcp_session chunks)"
  have "length (tcp_session chunks) = 2 * length chunks + 3"
    by (induction chunks) (auto simp: tcp_session_def)
  then obtain tr where tr: "iterate tcp_echo_round ?n (tcp_echo_round ?v) (tcp_session chunks) = (tr, Exited 0)"
    and "chunks_out cfd tr = map fst chunks" "delivered cfd tr = concat (map (\<lambda>(bs, k). take (nat k) bs) chunks)"
      "all_io (- 1) cfd tr" "closed tr = [cfd, sfd]" "opened tr = []" "outs_of tr = tcp_report (map fst chunks)"
    using tcp_session_run [of ?v chunks ?n] assms by auto
  then show ?thesis using assms(2,3)
    by (simp add: exec_def tcp_main_def tcp_setup_def Let_def)
qed

theorem tcp_echo_session_witness:
  "\<exists>tr. exec tcp_echo_round (tcp_main Little (replicate 1024 0))
       (tcp_setup 3 4 \<lparr>sin_port = 0x1234, sin_addr = 0x0100007F\<rparr> @ tcp_session [([104, 105], 1), ([10], 1)]) = (tr, Exited 0) \<and>
     chunks_out 4 tr = [[104, 105], [10]] \<and> delivered 4 tr = [104, 10] \<and> closed tr = [4, 3]"
  using tcp_echo_session [of "replicate 1024 0" 3 4 "[([104, 105], 1), ([10], 1)]" Little "\<lparr>sin_port = 0x1234, sin_addr = 0x0100007F\<rparr>"]
  by auto

end
