(* ===== verification/UdpEcho.thy ===== *)
theory UdpEcho
  imports Posix "HOL-Library.Multiset"
begin

text \<open>
  The UDP echo server and client of coding-problems/02_udp_echo_server.c. The server's loop
  keeps its descriptor and its buffer in a record; the client has no loop, it goes on with a
  given continuation (\<open>main\<close> returns 0 after it). \<open>argv\<close> and the uninitialised buffers are
  arguments.
\<close>

section \<open>The code\<close>

record udp_vars =
  sockfd :: int
  buffer :: bytes

definition udp_server_round :: "endian \<Rightarrow> udp_vars \<Rightarrow> udp_vars prog" where
  "udp_server_round e v =
     attempt (memset (buffer v) 0 0 1024) (\<lambda>buf.
     Sys (Recvfrom (sockfd v) (1024 - 1)) (\<lambda>r.
     attempt (write_bytes buf 0 (received (1024 - 1) r)) (\<lambda>buf.
     let bytes_received = received_len (1024 - 1) r; client_addr = peer r; v = v\<lparr>buffer := buf\<rparr>
     in if bytes_received < 0 then Say (Perror ''Receive failed'') (Again v)
        else
          attempt (c_string buf) (\<lambda>text.
          Say (Printf ''[SERVER] Received from %s:%d: %s''
                 [CStr (inet_ntoa e (sin_addr client_addr)), of_u (ntoh e (sin_port client_addr)),
                  CStr (string_of text)])
          (attempt (bytes_at buf bytes_received) (\<lambda>bs.
          Sys (Sendto (sockfd v) bs client_addr) (\<lambda>r.
          if ret r < 0 then Say (Perror ''Send failed'') (Again v)
          else Say (Printf (''[SERVER] Echoed back to client'' @ nl) []) (Again v))))))))"

definition udp_server_addr :: "endian \<Rightarrow> sockaddr_in" where
  "udp_server_addr e = \<lparr>sin_port = hton e 8081, sin_addr = 0\<rparr>"

definition run_udp_server :: "endian \<Rightarrow> bytes \<Rightarrow> udp_vars prog" where
  "run_udp_server e buf =
     Sys (Socket AF_INET SOCK_DGRAM 0) (\<lambda>r. let fd = ret r in
     if fd < 0 then Say (Perror ''Socket creation failed'') (Exit 1) else
     Say (Printf (''[SERVER] UDP Socket created'' @ nl) [])
     (Sys (Bind fd (udp_server_addr e)) (\<lambda>r.
     if ret r < 0 then Say (Perror ''Bind failed'') (Sys (Close fd) (\<lambda>_. Exit 1)) else
     Say (Printf (''[SERVER] Bound to port %d'' @ nl) [CInt 8081])
     (Say (Printf (''[SERVER] Waiting for datagrams...'' @ nl) [])
     (Again \<lparr>sockfd = fd, buffer = buf\<rparr>)))))"

definition run_udp_client :: "endian \<Rightarrow> bytes \<Rightarrow> string \<Rightarrow> string \<Rightarrow> 's prog \<Rightarrow> 's prog" where
  "run_udp_client e buf server_ip message return =
     Sys (Socket AF_INET SOCK_DGRAM 0) (\<lambda>r. let fd = ret r in
     if fd < 0 then Say (Perror ''Socket creation failed'') (Exit 1) else
     Say (Printf (''[CLIENT] UDP Socket created'' @ nl) [])
     (case inet_pton e server_ip of
        None \<Rightarrow> Say (Perror ''Invalid address'') (Sys (Close fd) (\<lambda>_. Exit 1))
      | Some a \<Rightarrow>
          let server_addr = \<lparr>sin_port = hton e 8081, sin_addr = a\<rparr> in
          Say (Printf (''[CLIENT] Sending: %s'' @ nl) [CStr message])
          (Sys (Sendto fd (bytes_of message) server_addr) (\<lambda>r.
          if ret r < 0 then Say (Perror ''Send failed'') (Sys (Close fd) (\<lambda>_. Exit 1)) else
          attempt (memset buf 0 0 1024) (\<lambda>buf.
          Sys (Setsockopt fd (SO_RCVTIMEO 5)) (\<lambda>_.
          Sys (Recvfrom fd (1024 - 1)) (\<lambda>r.
          attempt (write_bytes buf 0 (received (1024 - 1) r)) (\<lambda>buf.
          let bytes_received = received_len (1024 - 1) r; finish = Sys (Close fd) (\<lambda>_. return) in
          if bytes_received < 0 then Say (Perror ''Receive failed or timeout'') finish
          else
            attempt (c_string buf) (\<lambda>text.
            Say (Printf (''[CLIENT] Received echo: %s'' @ nl) [CStr (string_of text)]) finish)))))))))"

definition udp_main :: "endian \<Rightarrow> bytes \<Rightarrow> string list \<Rightarrow> udp_vars prog" where
  "udp_main e buf argv =
     (if length argv = 1 then
        Say (Printf (''Running in SERVER mode'' @ nl) []) (run_udp_server e buf)
      else if length argv = 3 then
        Say (Printf (''Running in CLIENT mode'' @ nl) [])
          (run_udp_client e buf (argv ! 1) (argv ! 2) (Exit 0))
      else
        attempt (nth_opt argv 0) (\<lambda>argv0.
        says [Printf (''Usage:'' @ nl) [],
              Printf (''  Server mode: %s'' @ nl) [CStr argv0],
              Printf (''  Client mode: %s <server_ip> <message>'' @ nl) [CStr argv0]] (Exit 1)))"

section \<open>The rounds in closed form\<close>

definition udp_refill :: "udp_vars \<Rightarrow> reply \<Rightarrow> udp_vars" where
  "udp_refill v r = v\<lparr>buffer := filled 1024 1023 r\<rparr>"

lemma udp_refill_simps [simp]:
  "sockfd (udp_refill v r) = sockfd v" "length (buffer (udp_refill v r)) = 1024"
  by (simp_all add: udp_refill_def)

definition udp_shown :: "endian \<Rightarrow> sockaddr_in \<Rightarrow> bytes \<Rightarrow> out" where
  "udp_shown e a bs = Printf ''[SERVER] Received from %s:%d: %s''
     [CStr (inet_ntoa e (sin_addr a)), of_u (ntoh e (sin_port a)), CStr (string_of (takeWhile (\<lambda>b. b \<noteq> 0) bs))]"

lemma filled_bytes_at: "n \<le> cap \<Longrightarrow> bytes_at (filled cap n r) (int (length (received n r))) = Some (received n r)"
  using received_length [of n r] by (simp add: bytes_at_def filled_def)

lemma udp_server_round_eq:
  assumes "length (buffer v) = 1024"
  shows "udp_server_round e v = Sys (Recvfrom (sockfd v) 1023) (\<lambda>r.
    if ret r < 0 then Say (Perror ''Receive failed'') (Again (udp_refill v r))
    else Say (udp_shown e (peer r) (received 1023 r))
      (Sys (Sendto (sockfd v) (received 1023 r) (peer r)) (\<lambda>r'.
        if ret r' < 0 then Say (Perror ''Send failed'') (Again (udp_refill v r))
        else Say (Printf (''[SERVER] Echoed back to client'' @ nl) []) (Again (udp_refill v r)))))"
  using zeroed_buffer [OF assms, of 1023]
  by (auto simp: udp_server_round_def received_len_def filled_string filled_bytes_at udp_refill_def udp_shown_def
      Let_def fun_eq_iff)

definition udp_inv :: "udp_vars \<Rightarrow> event list \<Rightarrow> bool" where
  "udp_inv v h \<longleftrightarrow> length (buffer v) = 1024 \<and> 0 \<le> sockfd v \<and> the_socket h = sockfd v \<and>
     all_io (- 1) (sockfd v) h \<and> datagrams_in h = datagrams_out h"

definition udp_ok :: "event list \<Rightarrow> udp_vars stop \<Rightarrow> bool" where
  "udp_ok tr st \<longleftrightarrow> st \<noteq> Crashed \<and> datagrams_in tr = datagrams_out tr @ pending_datagram st \<and>
     all_io (- 1) (the_socket tr) tr \<and> stop_io (- 1) (the_socket tr) st \<and>
     (\<forall>n. st = Exited n \<longrightarrow> n = 1 \<and> datagrams_in tr = [])"

lemma udp_round_consumes:
  "run (udp_server_round e v) rs = (tr, rest, Looped v') \<Longrightarrow> length rest < length rs"
  by (auto simp: udp_server_round_def attempt_def Let_def split: list.splits prod.splits if_splits option.splits)

lemma udp_round_inv:
  assumes "udp_inv v h" and "run (udp_server_round e v) rs = (tr, rest, st)"
  shows "holds_at udp_inv udp_ok (h @ tr) st"
proof -
  have "length (buffer v) = 1024" using assms(1) by (simp add: udp_inv_def)
  note eq = udp_server_round_eq [OF this, of e]
  show ?thesis
    using assms unfolding eq
    by (auto simp: udp_inv_def udp_ok_def pending_datagram_def split: list.splits if_splits prod.splits)
qed

interpretation udp: loop_invariant "udp_server_round e" udp_inv udp_ok for e
  by unfold_locales (rule udp_round_consumes udp_round_inv; assumption)+

lemma udp_server_first:
  assumes "length buf = 1024" and "run (udp_main e buf [argv0]) rs = (tr, rest, st)"
  shows "holds_at udp_inv udp_ok tr st"
  using assms
  by (auto simp: udp_main_def run_udp_server_def udp_inv_def udp_ok_def pending_datagram_def Let_def
      split: list.splits if_splits prod.splits)

lemma udp_server_ok:
  "length buf = 1024 \<Longrightarrow> exec (udp_server_round e) (udp_main e buf [argv0]) rs = (tr, st) \<Longrightarrow> udp_ok tr st"
  by (rule udp.exec_ok [OF udp_server_first])

lemma string_prefix:
  assumes "CHR 0x00 \<notin> set message"
  shows "string_of (takeWhile (\<lambda>b. b \<noteq> 0) (take n (bytes_of message))) = take n message"
proof -
  have t: "take n (bytes_of message) = bytes_of (take n message)" by (simp add: bytes_of_def take_map)
  have "0 \<notin> set (bytes_of (take n message))"
    using assms by (auto simp: zero_not_in_bytes_of dest: in_set_takeD)
  then show ?thesis by (simp add: t takeWhile_no_zero string_of_bytes_of)
qed

lemma udp_client_round_trip:
  assumes "length buf = 1024" and "0 \<le> fd" and "0 \<le> sent" and "inet_pton e ip = Some a"
    and z: "CHR 0x00 \<notin> set message"
  shows "\<exists>tr. exec body (udp_main e buf [name, ip, message])
      [reply_ret fd, reply_ret sent, reply_ret opt, reply_data (take 1023 (bytes_of message)) sender, reply_ret closing] =
      (tr, Exited 0) \<and>
    datagrams_out tr = [(bytes_of message, \<lparr>sin_port = hton e 8081, sin_addr = a\<rparr>)] \<and>
    printed (''[CLIENT] Received echo: %s'' @ nl) (outs_of tr) = Some [CStr (take 1023 message)]"
  using assms zeroed_buffer [OF assms(1), of 1023] string_prefix [OF z, of 1023]
  by (simp add: exec_def udp_main_def run_udp_client_def Let_def filled_string received_len_def)

lemma udp_server_echoes:
  assumes "length buf = 1024" and "0 \<le> fd" and "0 \<le> sent"
  shows "\<exists>tr. exec (udp_server_round e) (udp_main e buf [name])
      [reply_ret fd, reply_ret 0, reply_data datagram sender, reply_ret sent] = (tr, Waiting (Recvfrom fd 1023)) \<and>
    datagrams_out tr = [(take 1023 datagram, sender)]"
proof -
  have b: "length (buffer \<lparr>sockfd = fd, buffer = buf\<rparr>) = 1024" using assms(1) by simp
  show ?thesis
    using assms
    by (simp add: exec_def udp_main_def run_udp_server_def Let_def udp_server_round_eq [OF b] udp_server_round_eq)
qed

section \<open>Properties\<close>

text \<open>C21: the server answers every datagram to its sender and never ends by itself. For every
  sequence of replies of the system, the datagrams passed to \<open>sendto\<close>, with the one in progress,
  are the received ones with the addresses they came from, empty datagrams included, all on the
  socket that the server created; no access is outside the buffer; the process ends only when
  the set-up fails, with status 1.\<close>

theorem udp_server_answers_senders:
  assumes "length buf = 1024" and "exec (udp_server_round e) (udp_main e buf [argv0]) rs = (tr, st)"
  shows "st \<noteq> Crashed \<and> datagrams_in tr = datagrams_out tr @ pending_datagram st \<and>
     all_io (- 1) (the_socket tr) tr \<and> stop_io (- 1) (the_socket tr) st \<and>
     (\<forall>n. st = Exited n \<longrightarrow> n = 1 \<and> datagrams_in tr = [])"
  using udp_server_ok [OF assms] unfolding udp_ok_def .

theorem udp_server_answers_senders_witness:
  "\<exists>tr. exec (udp_server_round Big) (udp_main Big (replicate 1024 0) [''udp''])
       [reply_ret 3, reply_ret 0, reply_data [7, 9] \<lparr>sin_port = 5, sin_addr = 6\<rparr>, reply_ret 2,
        reply_data [1] \<lparr>sin_port = 8, sin_addr = 9\<rparr>] =
       (tr, Waiting (Sendto 3 [1] \<lparr>sin_port = 8, sin_addr = 9\<rparr>)) \<and>
     datagrams_out tr = [([7, 9], \<lparr>sin_port = 5, sin_addr = 6\<rparr>)] \<and>
     datagrams_in tr = [([7, 9], \<lparr>sin_port = 5, sin_addr = 6\<rparr>), ([1], \<lparr>sin_port = 8, sin_addr = 9\<rparr>)]"
proof -
  have b: "length (buffer \<lparr>sockfd = 3, buffer = replicate 1024 0\<rparr>) = 1024" by simp
  obtain tr where e: "exec (udp_server_round Big) (udp_main Big (replicate 1024 0) [''udp''])
      [reply_ret 3, reply_ret 0, reply_data [7, 9] \<lparr>sin_port = 5, sin_addr = 6\<rparr>, reply_ret 2,
        reply_data [1] \<lparr>sin_port = 8, sin_addr = 9\<rparr>] =
      (tr, Waiting (Sendto 3 [1] \<lparr>sin_port = 8, sin_addr = 9\<rparr>))"
    and o: "datagrams_out tr = [([7, 9], \<lparr>sin_port = 5, sin_addr = 6\<rparr>)]"
    by (simp add: exec_def udp_main_def run_udp_server_def Let_def udp_server_round_eq [OF b] udp_server_round_eq)
  then show ?thesis using udp_server_answers_senders [OF _ e] by (simp add: pending_datagram_def)
qed

text \<open>Client and server together. A client on a host of either byte order sends a message
  to the server's address in dotted form: the datagram is the message, without a terminator,
  and its port is the one the server is bound to; the server sends the first 1023 bytes back to
  the sender; on that answer the client prints the first 1023 characters and returns 0.\<close>

lemma udp_echo_end_to_end:
  assumes "length cbuf = 1024" "length sbuf = 1024" and "0 \<le> cfd" "0 \<le> sfd" "0 \<le> n" "0 \<le> m"
    and "CHR 0x00 \<notin> set message"
  shows "\<exists>trc trs a.
    exec cbody (udp_main ec cbuf [c0, dotted [unat a1, unat a2, unat a3, unat a4], message])
      [reply_ret cfd, reply_ret n, reply_ret 0, reply_data (take 1023 (bytes_of message)) saddr, reply_ret 0] = (trc, Exited 0) \<and>
    datagrams_out trc = [(bytes_of message, a)] \<and> enc ec (sin_addr a) = [a1, a2, a3, a4] \<and>
    enc ec (sin_port a) = enc es (sin_port (udp_server_addr es)) \<and>
    printed (''[CLIENT] Received echo: %s'' @ nl) (outs_of trc) = Some [CStr (take 1023 message)] \<and>
    exec (udp_server_round es) (udp_main es sbuf [s0])
      [reply_ret sfd, reply_ret 0, reply_data (bytes_of message) caddr, reply_ret m] = (trs, Waiting (Recvfrom sfd 1023)) \<and>
    datagrams_out trs = [(take 1023 (bytes_of message), caddr)]"
proof -
  let ?a = "\<lparr>sin_port = hton ec 8081, sin_addr = dec ec [a1, a2, a3, a4]\<rparr>"
  have "enc ec (sin_addr ?a) = [a1, a2, a3, a4]" by (simp add: enc_dec)
  moreover have "enc ec (sin_port ?a) = enc es (sin_port (udp_server_addr es))"
    by (simp add: udp_server_addr_def enc_hton [where n = 2])
  ultimately show ?thesis
    using udp_client_round_trip [OF assms(1,3,5) inet_pton_dotted assms(7),
        where body = cbody and name = c0 and opt = 0 and closing = 0 and sender = saddr]
      udp_server_echoes [OF assms(2,4,6), where e = es and name = s0 and datagram = "bytes_of message" and sender = caddr]
    by blast
qed

theorem udp_echo_end_to_end_witness:
  "\<exists>trc. exec (\<lambda>v. Exit 0) (udp_main Little (replicate 1024 0) [''udp'', ''127.0.0.1'', ''hello''])
      [reply_ret 3, reply_ret 5, reply_ret 0, reply_data (take 1023 (bytes_of ''hello'')) \<lparr>sin_port = 0, sin_addr = 0\<rparr>,
       reply_ret 0] = (trc, Exited 0) \<and>
    printed (''[CLIENT] Received echo: %s'' @ nl) (outs_of trc) = Some [CStr ''hello'']"
    using udp_echo_end_to_end [of "replicate 1024 0" "replicate 1024 0" 3 4 5 6 "''hello''" "\<lambda>v. Exit 0" Little "''udp''"
        127 0 0 1 "\<lparr>sin_port = 0, sin_addr = 0\<rparr>" Big "''udp''"
        "\<lparr>sin_port = 0, sin_addr = 0\<rparr>", unfolded localhost_dotted]
    by (auto simp: zero_less_numeral)

text \<open>The exit status of the client. It is 0 exactly when \<open>sendto\<close> succeeded: a receive that
  fails or times out still ends with status 0. The socket is closed exactly once on every
  path, and no access is outside the buffer.\<close>

lemma udp_client_status:
  assumes "length buf = 1024" and "exec body (udp_main e buf [argv0, ip, message]) rs = (tr, st)"
  shows "st \<noteq> Crashed \<and> (\<forall>n. st = Exited n \<longrightarrow> closed tr = opened tr \<and>
     n = (if \<exists>fd bs a r. (Sendto fd bs a, r) \<in> set (calls_of tr) \<and> 0 \<le> ret r then 0 else 1))"
  using assms zeroed_buffer [OF assms(1), of 1023]
  by (auto simp: exec_def udp_main_def run_udp_client_def Let_def filled_string received_len_def
      split: list.splits if_splits option.splits prod.splits)

theorem udp_client_status_witness:
  "\<exists>tr. exec (\<lambda>v. Exit 0) (udp_main Little (replicate 1024 0) [''udp'', ''127.0.0.1'', ''hello''])
      [reply_ret 3, reply_ret 5, reply_ret 0, reply_ret (- 1), reply_ret 0] = (tr, Exited 0) \<and> closed tr = opened tr"
proof -
  obtain tr where e: "exec (\<lambda>v. Exit 0) (udp_main Little (replicate 1024 0) [''udp'', ''127.0.0.1'', ''hello''])
      [reply_ret 3, reply_ret 5, reply_ret 0, reply_ret (- 1), reply_ret 0] = (tr, Exited 0 :: udp_vars stop)"
    using zeroed_buffer [of "replicate 1024 0" 1024 1023]
    by (simp add: exec_def udp_main_def run_udp_client_def Let_def inet_pton_localhost filled_string received_len_def)
  then show ?thesis using udp_client_status [OF _ e] by simp
qed

end
