(* ===== verification/Sniffer.thy ===== *)
theory Sniffer
  imports Posix IpHeader
begin

text \<open>
  The packet sniffer of coding-problems/03_raw_socket_sniffer.c: the functions that print the
  Ethernet, IP, TCP, UDP and ICMP headers, the dispatch of \<open>process_packet\<close> with its static
  counter, and the capture loop of \<open>main\<close>. The kernel's header structs are read at their
  offsets: \<open>struct ethhdr\<close> has 14 bytes, the IP header follows it, the transport header follows
  after \<open>ihl * 4\<close> bytes; the bit fields are the nibbles and bits that the structs declare for
  both byte orders.
\<close>

section \<open>The code\<close>

definition print_ethernet_header :: "endian \<Rightarrow> bytes \<Rightarrow> out list option" where
  "print_ethernet_header e buffer = do {
     d0 \<leftarrow> load8 buffer 0; d1 \<leftarrow> load8 buffer 1; d2 \<leftarrow> load8 buffer 2;
     d3 \<leftarrow> load8 buffer 3; d4 \<leftarrow> load8 buffer 4; d5 \<leftarrow> load8 buffer 5;
     s0 \<leftarrow> load8 buffer 6; s1 \<leftarrow> load8 buffer 7; s2 \<leftarrow> load8 buffer 8;
     s3 \<leftarrow> load8 buffer 9; s4 \<leftarrow> load8 buffer 10; s5 \<leftarrow> load8 buffer 11;
     h_proto \<leftarrow> load16 e buffer 12;
     Some
       [Printf nl [],
        Printf (''Ethernet Header'' @ nl) [],
        Printf (''   |-Source MAC      : %.2X:%.2X:%.2X:%.2X:%.2X:%.2X'' @ nl)
          [of_u s0, of_u s1, of_u s2, of_u s3, of_u s4, of_u s5],
        Printf (''   |-Destination MAC : %.2X:%.2X:%.2X:%.2X:%.2X:%.2X'' @ nl)
          [of_u d0, of_u d1, of_u d2, of_u d3, of_u d4, of_u d5],
        Printf (''   |-Protocol        : 0x%.4x'' @ nl) [of_u (ntoh e h_proto)]] }"

definition sniffed_ip_header :: "endian \<Rightarrow> bytes \<Rightarrow> out list option" where
  "sniffed_ip_header e buffer = do {
     vi \<leftarrow> load8 buffer 14;
     let version = drop_bit 4 vi;
     let ihl = vi AND 0x0F;
     tos_byte \<leftarrow> load8 buffer 15;
     tot_len \<leftarrow> load16 e buffer 16;
     ident \<leftarrow> load16 e buffer 18;
     hops \<leftarrow> load8 buffer 22;
     proto \<leftarrow> load8 buffer 23;
     check \<leftarrow> load16 e buffer 24;
     saddr \<leftarrow> load32 e buffer 26;
     daddr \<leftarrow> load32 e buffer 30;
     Some
       [Printf nl [],
        Printf (''IP Header'' @ nl) [],
        Printf (''   |-Version              : %d'' @ nl) [of_u version],
        Printf (''   |-Header Length        : %d DWORDS (%d Bytes)'' @ nl) [of_u ihl, of_u ((ucast ihl :: u32) * 4)],
        Printf (''   |-Type Of Service      : %d'' @ nl) [of_u tos_byte],
        Printf (''   |-Total Length         : %d Bytes'' @ nl) [of_u (ntoh e tot_len)],
        Printf (''   |-Identification       : %d'' @ nl) [of_u (ntoh e ident)],
        Printf (''   |-TTL                  : %d'' @ nl) [of_u hops],
        Printf (''   |-Protocol             : %d'' @ nl) [of_u proto],
        Printf (''   |-Checksum             : 0x%.4x'' @ nl) [of_u (ntoh e check)],
        Printf (''   |-Source IP            : %s'' @ nl) [CStr (inet_ntoa e saddr)],
        Printf (''   |-Destination IP       : %s'' @ nl) [CStr (inet_ntoa e daddr)]] }"

text \<open>Where the transport header starts: \<open>iphdrlen\<close> is an \<open>unsigned short\<close>.\<close>

definition transport_offset :: "bytes \<Rightarrow> nat option" where
  "transport_offset buffer = do {
     vi \<leftarrow> load8 buffer 14;
     let iphdrlen = (ucast (vi AND 0x0F) :: u16) * 4;
     Some (unat iphdrlen + 14) }"

definition print_tcp_header :: "endian \<Rightarrow> bytes \<Rightarrow> out list option" where
  "print_tcp_header e buffer = do {
     t \<leftarrow> transport_offset buffer;
     source \<leftarrow> load16 e buffer t;
     dest \<leftarrow> load16 e buffer (t + 2);
     seq \<leftarrow> load32 e buffer (t + 4);
     ack_seq \<leftarrow> load32 e buffer (t + 8);
     off_byte \<leftarrow> load8 buffer (t + 12);
     let doff = drop_bit 4 off_byte;
     flags \<leftarrow> load8 buffer (t + 13);
     window \<leftarrow> load16 e buffer (t + 14);
     check \<leftarrow> load16 e buffer (t + 16);
     urg_ptr \<leftarrow> load16 e buffer (t + 18);
     Some
       ([Printf nl [],
         Printf (''TCP Header'' @ nl) [],
         Printf (''   |-Source Port      : %u'' @ nl) [of_u (ntoh e source)],
         Printf (''   |-Destination Port : %u'' @ nl) [of_u (ntoh e dest)],
         Printf (''   |-Sequence Number  : %u'' @ nl) [of_u (ntoh e seq)],
         Printf (''   |-Acknowledge Number: %u'' @ nl) [of_u (ntoh e ack_seq)],
         Printf (''   |-Header Length    : %d DWORDS (%d Bytes)'' @ nl) [of_u doff, of_u ((ucast doff :: u32) * 4)],
         Printf ''   |-Flags            : '' []] @
        (if bit flags 5 then [Printf ''URG '' []] else []) @
        (if bit flags 4 then [Printf ''ACK '' []] else []) @
        (if bit flags 3 then [Printf ''PSH '' []] else []) @
        (if bit flags 2 then [Printf ''RST '' []] else []) @
        (if bit flags 1 then [Printf ''SYN '' []] else []) @
        (if bit flags 0 then [Printf ''FIN '' []] else []) @
        [Printf nl [],
         Printf (''   |-Window Size      : %d'' @ nl) [of_u (ntoh e window)],
         Printf (''   |-Checksum         : 0x%.4x'' @ nl) [of_u (ntoh e check)],
         Printf (''   |-Urgent Pointer   : %d'' @ nl) [of_u urg_ptr]]) }"

definition print_udp_header :: "endian \<Rightarrow> bytes \<Rightarrow> out list option" where
  "print_udp_header e buffer = do {
     t \<leftarrow> transport_offset buffer;
     source \<leftarrow> load16 e buffer t;
     dest \<leftarrow> load16 e buffer (t + 2);
     udp_len \<leftarrow> load16 e buffer (t + 4);
     check \<leftarrow> load16 e buffer (t + 6);
     Some
       [Printf nl [],
        Printf (''UDP Header'' @ nl) [],
        Printf (''   |-Source Port      : %d'' @ nl) [of_u (ntoh e source)],
        Printf (''   |-Destination Port : %d'' @ nl) [of_u (ntoh e dest)],
        Printf (''   |-UDP Length       : %d'' @ nl) [of_u (ntoh e udp_len)],
        Printf (''   |-UDP Checksum     : 0x%.4x'' @ nl) [of_u (ntoh e check)]] }"

definition print_icmp_header :: "endian \<Rightarrow> bytes \<Rightarrow> out list option" where
  "print_icmp_header e buffer = do {
     t \<leftarrow> transport_offset buffer;
     icmp_type \<leftarrow> load8 buffer t;
     code \<leftarrow> load8 buffer (t + 1);
     checksum \<leftarrow> load16 e buffer (t + 2);
     Some
       [Printf nl [],
        Printf (''ICMP Header'' @ nl) [],
        Printf (''   |-Type     : %d'' @ nl) [of_u icmp_type],
        Printf (''   |-Code     : %d'' @ nl) [of_u code],
        Printf (''   |-Checksum : 0x%.4x'' @ nl) [of_u (ntoh e checksum)]] }"

definition print_transport :: "endian \<Rightarrow> bytes \<Rightarrow> out list option" where
  "print_transport e buffer = do {
     proto \<leftarrow> load8 buffer 23;
     if proto = 6 then do {
       shown \<leftarrow> print_tcp_header e buffer; Some (Printf (nl @ ''Protocol: TCP'' @ nl) [] # shown) }
     else if proto = 17 then do {
       shown \<leftarrow> print_udp_header e buffer; Some (Printf (nl @ ''Protocol: UDP'' @ nl) [] # shown) }
     else if proto = 1 then do {
       shown \<leftarrow> print_icmp_header e buffer; Some (Printf (nl @ ''Protocol: ICMP'' @ nl) [] # shown) }
     else Some [Printf (nl @ ''Protocol: Other (%d)'' @ nl) [of_u proto]] }"

text \<open>\<open>packet_count++\<close> on the static \<open>int\<close>, whose overflow is undefined.\<close>

definition process_packet :: "endian \<Rightarrow> bytes \<Rightarrow> int \<Rightarrow> int \<Rightarrow> (out list \<times> int) option" where
  "process_packet e buffer data_size packet_count =
     (if packet_count \<ge> 2147483647 then None
      else do {
        let packet_count = packet_count + 1;
        eth \<leftarrow> print_ethernet_header e buffer;
        ip \<leftarrow> sniffed_ip_header e buffer;
        transport \<leftarrow> print_transport e buffer;
        Some
          ([Printf (nl @ nl @ ''===== Packet #%d ====='' @ nl) [CInt packet_count],
            Printf (''Packet Size: %d bytes'' @ nl) [CInt data_size]] @
           eth @ ip @ transport @
           [Printf (''======================================'' @ nl) []], packet_count) })"

record sniffer_vars =
  sniffer_fd :: int
  frame_buffer :: bytes
  packets_seen :: int

definition sniffer_round :: "endian \<Rightarrow> sniffer_vars \<Rightarrow> sniffer_vars prog" where
  "sniffer_round e v =
     Sys (Recvfrom (sniffer_fd v) 65536) (\<lambda>r.
     attempt (write_bytes (frame_buffer v) 0 (received 65536 r)) (\<lambda>buf.
     let data_size = received_len 65536 r
     in if data_size < 0 then
          Say (Perror ''Packet receive failed'')
            (Sys (Close (sniffer_fd v)) (\<lambda>_. Sys Free (\<lambda>_. Exit 0)))
        else
          attempt (process_packet e buf data_size (packets_seen v)) (\<lambda>(outs, packet_count).
          says outs (Again (v\<lparr>frame_buffer := buf, packets_seen := packet_count\<rparr>)))))"

definition sniffer_main :: "endian \<Rightarrow> bytes \<Rightarrow> sniffer_vars prog" where
  "sniffer_main e buf =
     Sys (Malloc 65536) (\<lambda>r.
     if ret r = 0 then Say (Printf (''Memory allocation failed'' @ nl) []) (Exit 1) else
     Say (Printf (''Starting packet sniffer...'' @ nl) [])
     (Say (Printf (''Note: This program requires root/sudo privileges!'' @ nl @ nl) [])
     (Sys (Socket AF_PACKET SOCK_RAW (hton e 3)) (\<lambda>r. let fd = ret r in
     if fd < 0 then
       Say (Perror ''Socket creation failed. Are you running as root?'') (Sys Free (\<lambda>_. Exit 1))
     else
       Say (Printf (''[+] Raw socket created successfully'' @ nl) [])
       (Say (Printf (''[+] Capturing packets... (Press Ctrl+C to stop)'' @ nl @ nl) [])
       (Again \<lparr>sniffer_fd = fd, frame_buffer = buf, packets_seen = 0\<rparr>))))))"

section \<open>What the report depends on\<close>

lemma load8_cong: "take n b = take n b' \<Longrightarrow> k < n \<Longrightarrow> n \<le> length b \<Longrightarrow> n \<le> length b' \<Longrightarrow> load8 b k = load8 b' k"
  using nth_take [of k n b] nth_take [of k n b'] by (simp add: load8_def)

lemma load_obj_cong:
  assumes "take n b = take n b'" and "k + m \<le> n" and "n \<le> length b" and "n \<le> length b'"
  shows "load_obj m d b k = load_obj m d b' k"
proof -
  have "take m (drop k b) = take m (drop k (take n b))" using assms(2) by (simp add: drop_take min_def)
  also have "\<dots> = take m (drop k (take n b'))" by (simp only: assms(1))
  also have "\<dots> = take m (drop k b')" using assms(2) by (simp add: drop_take min_def)
  finally show ?thesis using assms by (simp add: load_obj_def)
qed

lemma transport_offset_eq: "14 < length b \<Longrightarrow> transport_offset b = Some (4 * (unat (b ! 14) mod 16) + 14)"
proof -
  have "unat (b ! 14 AND 0x0F) = unat (b ! 14) mod 16"
    using unat_and_low [of "b ! 14" 4] by (simp add: mask_eq_exp_minus_1)
  then have "unat ((ucast (b ! 14 AND 0x0F) :: u16) * 4) = 4 * (unat (b ! 14) mod 16)"
    by (simp add: unat_word_ariths unat_ucast)
  then show "14 < length b \<Longrightarrow> ?thesis" by (simp add: transport_offset_def Let_def)
qed

lemma transport_offset_le: "transport_offset b = Some t \<Longrightarrow> t \<le> 74"
proof -
  assume t: "transport_offset b = Some t"
  then have "14 < length b" by (auto simp: transport_offset_def load8_def split: if_splits bind_splits)
  with t have "t = 4 * (unat (b ! 14) mod 16) + 14" by (simp add: transport_offset_eq)
  moreover have "unat (b ! 14) mod 16 < 16" by simp
  ultimately show ?thesis by linarith
qed

lemma process_packet_cong:
  assumes same: "take 94 b = take 94 b'" and l: "94 \<le> length b" "94 \<le> length b'"
  shows "process_packet e b n c = process_packet e b' n c"
proof -
  note cong8 = load8_cong [OF same _ l]
  have cong16: "load16 e b k = load16 e b' k" if "k + 2 \<le> 94" for k
    using that unfolding load16_def by (rule load_obj_cong [OF same _ l])
  have cong32: "load32 e b k = load32 e b' k" if "k + 4 \<le> 94" for k
    using that unfolding load32_def by (rule load_obj_cong [OF same _ l])
  have t: "transport_offset b = transport_offset b'"
    by (simp add: transport_offset_def cong8 Let_def)
  obtain t where t': "transport_offset b = Some t" using l by (auto simp: transport_offset_eq)
  then have t74: "t \<le> 74" by (rule transport_offset_le)
  have "print_ethernet_header e b = print_ethernet_header e b'"
    by (simp add: print_ethernet_header_def cong8 cong16)
  moreover have "sniffed_ip_header e b = sniffed_ip_header e b'"
    by (simp add: sniffed_ip_header_def cong8 cong16 cong32)
  moreover have "print_tcp_header e b = print_tcp_header e b'"
    using t74 by (simp add: print_tcp_header_def t' t [symmetric] cong8 cong16 cong32)
  moreover have "print_udp_header e b = print_udp_header e b'"
    using t74 by (simp add: print_udp_header_def t' t [symmetric] cong16)
  moreover have "print_icmp_header e b = print_icmp_header e b'"
    using t74 by (simp add: print_icmp_header_def t' t [symmetric] cong8 cong16)
  ultimately show ?thesis
    by (simp add: process_packet_def print_transport_def cong8 cong: if_cong)
qed

lemma load32_in_range: "off + 4 \<le> length mem \<Longrightarrow> load32 e mem off = Some (dec e (take 4 (drop off mem)))"
  by (simp add: load32_def load_obj_def)

definition report_numbers :: "out list \<Rightarrow> int list" where
  "report_numbers outs = concat (map (\<lambda>x. case x of
      Printf f [CInt k] \<Rightarrow> if f = nl @ nl @ ''===== Packet #%d ====='' @ nl then [k] else []
    | _ \<Rightarrow> []) outs)"

lemma report_numbers_simps:
  "report_numbers [] = []" "report_numbers (xs @ ys) = report_numbers xs @ report_numbers ys"
  "report_numbers (x # xs) = report_numbers [x] @ report_numbers xs"
  by (simp_all add: report_numbers_def)

lemma print_headers_total:
  assumes l: "94 \<le> length b"
  shows "\<exists>outs. print_ethernet_header e b = Some outs \<and> report_numbers outs = []"
    and "\<exists>outs. sniffed_ip_header e b = Some outs \<and> report_numbers outs = []"
    and "\<exists>outs. print_transport e b = Some outs \<and> report_numbers outs = []"
proof -
  obtain t where t: "transport_offset b = Some t" using l by (auto simp: transport_offset_eq)
  then have t74: "t \<le> 74" by (rule transport_offset_le)
  have ne: "b \<noteq> []" using l by auto
  show "\<exists>outs. print_ethernet_header e b = Some outs \<and> report_numbers outs = []"
    using l ne by (simp add: print_ethernet_header_def load16_in_range report_numbers_def)
  show "\<exists>outs. sniffed_ip_header e b = Some outs \<and> report_numbers outs = []"
    using l by (simp add: sniffed_ip_header_def load16_in_range load32_in_range report_numbers_def Let_def)
  have "\<exists>outs. print_tcp_header e b = Some outs \<and> report_numbers outs = []"
    using l t74 by (auto simp: print_tcp_header_def t load16_in_range load32_in_range report_numbers_def Let_def)
  moreover have "\<exists>outs. print_udp_header e b = Some outs \<and> report_numbers outs = []"
    using l t74 by (simp add: print_udp_header_def t load16_in_range report_numbers_def)
  moreover have "\<exists>outs. print_icmp_header e b = Some outs \<and> report_numbers outs = []"
    using l t74 by (simp add: print_icmp_header_def t load16_in_range report_numbers_def)
  ultimately show "\<exists>outs. print_transport e b = Some outs \<and> report_numbers outs = []"
    using l by (auto simp: print_transport_def report_numbers_def)
qed

lemma process_packet_total:
  assumes l: "94 \<le> length b" and c: "c < 2147483647"
  shows "\<exists>outs. process_packet e b n c = Some (outs, c + 1) \<and> report_numbers outs = [c + 1]"
proof -
  obtain o1 o2 o3 where "print_ethernet_header e b = Some o1" "report_numbers o1 = []"
    "sniffed_ip_header e b = Some o2" "report_numbers o2 = []" "print_transport e b = Some o3" "report_numbers o3 = []"
    using print_headers_total [OF l, of e] by blast
  then show ?thesis using c by (simp add: process_packet_def Let_def report_numbers_def)
qed

section \<open>The capture loop\<close>

definition sniffer_inv :: "sniffer_vars \<Rightarrow> event list \<Rightarrow> bool" where
  "sniffer_inv v h \<longleftrightarrow> length (frame_buffer v) = 65536 \<and> packets_seen v \<le> 2147483647 \<and>
     packets_seen v = int (length (datagrams_in h)) \<and>
     report_numbers (outs_of h) = [1..packets_seen v] \<and> opened h = [sniffer_fd v] \<and> closed h = []"

definition sniffer_ok :: "event list \<Rightarrow> sniffer_vars stop \<Rightarrow> bool" where
  "sniffer_ok tr st \<longleftrightarrow>
     (if st = Crashed then length (datagrams_in tr) = 2147483648
      else report_numbers (outs_of tr) = [1..int (length (datagrams_in tr))] \<and>
        (\<forall>n. st = Exited n \<longrightarrow> closed tr = opened tr))"

lemma sniffer_round_consumes:
  "run (sniffer_round e v) rs = (tr, rest, Looped v') \<Longrightarrow> length rest < length rs"
  by (auto simp: sniffer_round_def attempt_def Let_def split: list.splits prod.splits if_splits option.splits)

lemma upto_snoc: "0 \<le> n \<Longrightarrow> [1..n] @ [n + 1] = [1..n + 1]"
  by (simp add: upto_rec2)

lemma sniffer_round_inv:
  assumes "sniffer_inv v h" and r: "run (sniffer_round e v) rs = (tr, rest, st)"
  shows "holds_at sniffer_inv sniffer_ok (h @ tr) st"
proof (cases rs)
  case Nil
  with assms show ?thesis
    by (auto simp: sniffer_round_def sniffer_inv_def sniffer_ok_def)
next
  case (Cons x xs)
  have l: "length (frame_buffer v) = 65536" using assms(1) by (simp add: sniffer_inv_def)
  define buf where "buf = received 65536 x @ drop (length (received 65536 x)) (frame_buffer v)"
  have w: "write_bytes (frame_buffer v) 0 (received 65536 x) = Some buf" and lb: "length buf = 65536"
    using store_received [of 65536 "frame_buffer v" x] received_length [of 65536 x] l by (simp_all add: buf_def)
  show ?thesis
  proof (cases "ret x < 0")
    case True
    with assms Cons w show ?thesis
      by (auto simp: sniffer_round_def received_len_def sniffer_inv_def sniffer_ok_def report_numbers_def
          split: list.splits)
  next
    case False
    let ?n = "int (length (received 65536 x))"
    have g: "received_len 65536 x = ?n" using False by (simp add: received_len_def)
    show ?thesis
    proof (cases "packets_seen v < 2147483647")
      case True
      obtain outs where p: "process_packet e buf ?n (packets_seen v) = Some (outs, packets_seen v + 1)"
        and n: "report_numbers outs = [packets_seen v + 1]"
        using process_packet_total [of buf "packets_seen v" e ?n] True lb by auto
      have "0 \<le> packets_seen v" using assms(1) by (simp add: sniffer_inv_def)
      then show ?thesis
        using assms Cons w False True g p n lb upto_snoc [of "packets_seen v"]
        by (auto simp: sniffer_round_def sniffer_inv_def report_numbers_simps(2))
    next
      case full: False
      then have "process_packet e buf ?n (packets_seen v) = None" by (simp add: process_packet_def)
      then show ?thesis
        using assms Cons w False full g by (auto simp: sniffer_round_def sniffer_inv_def sniffer_ok_def)
    qed
  qed
qed

interpretation sniffer: loop_invariant "sniffer_round e" sniffer_inv sniffer_ok for e
  by unfold_locales (rule sniffer_round_consumes sniffer_round_inv; assumption)+

lemma sniffer_main_ok:
  assumes "length buf = 65536" and "exec (sniffer_round e) (sniffer_main e buf) rs = (tr, st)"
  shows "sniffer_ok tr st"
proof (rule sniffer.exec_ok [OF _ assms(2)])
  fix tr rest st
  assume "run (sniffer_main e buf) rs = (tr, rest, st)"
  then show "holds_at sniffer_inv sniffer_ok tr st"
    using assms(1)
    by (auto simp: sniffer_main_def sniffer_inv_def sniffer_ok_def report_numbers_def Let_def
        split: list.splits if_splits)
qed

section \<open>Properties\<close>

text \<open>C20: every captured frame is reported once, with its number. For every sequence of
  replies of the system, where the sniffer waits or has ended, the report numbers it has
  printed are 1 to the number of frames it received; when it has ended, the socket is closed
  exactly once. An undefined step needs 2147483648 frames, where the static counter overflows:
  no access is outside the buffer, whatever the frames contain.\<close>

theorem sniffer_reports_each_frame:
  assumes "length buf = 65536" and "exec (sniffer_round e) (sniffer_main e buf) rs = (tr, st)"
  shows "if st = Crashed then length (datagrams_in tr) = 2147483648
     else report_numbers (outs_of tr) = [1..int (length (datagrams_in tr))] \<and>
       (\<forall>n. st = Exited n \<longrightarrow> closed tr = opened tr)"
  using sniffer_main_ok [OF assms] unfolding sniffer_ok_def .

theorem sniffer_reports_each_frame_witness:
  "\<exists>tr. exec (sniffer_round Little) (sniffer_main Little (replicate 65536 0))
       [reply_ret 1, reply_ret 3, reply_data (replicate 60 0) \<lparr>sin_port = 0, sin_addr = 0\<rparr>, reply_ret (- 1), reply_ret 0, reply_ret 0] =
       (tr, Exited 0) \<and> closed tr = [3] \<and> closed tr = opened tr \<and> length (datagrams_in tr) = 1 \<and> report_numbers (outs_of tr) = [1]"
proof -
  let ?b = "replicate 65536 (0 :: u8)"
  have w: "write_bytes ?b 0 (replicate 60 0) = Some ?b" "write_bytes ?b 0 [] = Some ?b"
    by (simp_all add: write_bytes_def flip: replicate_add)
  obtain outs where p: "process_packet Little ?b 60 0 = Some (outs, 1)"
    using process_packet_total [of ?b 0 Little 60] by auto
  have r: "received 65536 (reply_data (replicate 60 0) \<lparr>sin_port = 0, sin_addr = 0\<rparr>) = replicate 60 0" by simp
  obtain tr where e: "exec (sniffer_round Little) (sniffer_main Little ?b)
      [reply_ret 1, reply_ret 3, reply_data (replicate 60 0) \<lparr>sin_port = 0, sin_addr = 0\<rparr>, reply_ret (- 1), reply_ret 0, reply_ret 0] = (tr, Exited 0)"
    and c: "closed tr = [3]" and d: "length (datagrams_in tr) = 1"
    by (simp add: exec_def sniffer_main_def sniffer_round_def received_len_def r w p Let_def)
  then show ?thesis using sniffer_reports_each_frame [OF _ e] by simp
qed



text \<open>What a report says about the protocol: the line of the IP part and the line of the dispatch.\<close>

definition says_protocol :: "u8 \<Rightarrow> out list \<Rightarrow> bool" where
  "says_protocol p outs \<longleftrightarrow>
     printed (''   |-Protocol             : %d'' @ nl) outs = Some [of_u p] \<and>
     printed (nl @ ''Protocol: TCP'' @ nl) outs = (if p = 6 then Some [] else None) \<and>
     printed (nl @ ''Protocol: UDP'' @ nl) outs = (if p = 17 then Some [] else None) \<and>
     printed (nl @ ''Protocol: ICMP'' @ nl) outs = (if p = 1 then Some [] else None) \<and>
     printed (nl @ ''Protocol: Other (%d)'' @ nl) outs = (if p = 6 \<or> p = 17 \<or> p = 1 then None else Some [of_u p])"

lemma not_in_ethernet:
  assumes "print_ethernet_header e b = Some outs"
  shows "printed (''   |-Protocol             : %d'' @ nl) outs = None" "printed (nl @ ''Protocol: '' @ f) outs = None"
  using assms by (auto simp: print_ethernet_header_def split: bind_splits)

lemma in_sniffed_ip_header:
  assumes "sniffed_ip_header e b = Some outs" and "24 \<le> length b"
  shows "printed (''   |-Protocol             : %d'' @ nl) outs = Some [of_u (b ! 23)]" "printed (nl @ ''Protocol: '' @ f) outs = None"
  using assms by (auto simp: sniffed_ip_header_def load8_def Let_def split: bind_splits if_splits)

lemma not_in_transport_headers:
  shows "print_tcp_header e b = Some outs \<Longrightarrow> printed (nl @ ''Protocol: '' @ f) outs = None"
    and "print_udp_header e b = Some outs \<Longrightarrow> printed (nl @ ''Protocol: '' @ f) outs = None"
    and "print_icmp_header e b = Some outs \<Longrightarrow> printed (nl @ ''Protocol: '' @ f) outs = None"
  by (auto simp: print_tcp_header_def print_udp_header_def print_icmp_header_def Let_def printed_append split: bind_splits)

definition dispatched :: "string \<Rightarrow> u8 \<Rightarrow> carg list option" where
  "dispatched f p =
     (if p = 6 then (if f = ''TCP'' @ nl then Some [] else None)
      else if p = 17 then (if f = ''UDP'' @ nl then Some [] else None)
      else if p = 1 then (if f = ''ICMP'' @ nl then Some [] else None)
      else if f = ''Other (%d)'' @ nl then Some [of_u p] else None)"

lemma print_transport_dispatches:
  assumes t: "print_transport e b = Some tp" and p: "load8 b 23 = Some p"
  shows "printed (nl @ ''Protocol: '' @ f) tp = dispatched f p"
proof -
  consider "p = 6" | "p = 17" | "p = 1" | "p \<noteq> 6" "p \<noteq> 17" "p \<noteq> 1" by blast
  then show ?thesis
  proof cases
    case 1
    then obtain x where "print_tcp_header e b = Some x" "tp = Printf (nl @ ''Protocol: TCP'' @ nl) [] # x"
      using t p by (auto simp: print_transport_def split: bind_splits)
    then show ?thesis using not_in_transport_headers(1) 1 by (simp add: dispatched_def)
  next
    case 2
    then obtain x where "print_udp_header e b = Some x" "tp = Printf (nl @ ''Protocol: UDP'' @ nl) [] # x"
      using t p by (auto simp: print_transport_def split: bind_splits)
    then show ?thesis using not_in_transport_headers(2) 2 by (simp add: dispatched_def)
  next
    case 3
    then obtain x where "print_icmp_header e b = Some x" "tp = Printf (nl @ ''Protocol: ICMP'' @ nl) [] # x"
      using t p by (auto simp: print_transport_def split: bind_splits)
    then show ?thesis using not_in_transport_headers(3) 3 by (simp add: dispatched_def)
  next
    case 4
    then have "tp = [Printf (nl @ ''Protocol: Other (%d)'' @ nl) [of_u p]]"
      using t p by (simp add: print_transport_def)
    then show ?thesis using 4 by (simp add: dispatched_def)
  qed
qed

lemma process_packet_says_protocol:
  assumes p: "process_packet e b n c = Some (outs, c')" and l: "24 \<le> length b"
  shows "says_protocol (b ! 23) outs"
proof -
  obtain eth ip tp where h: "print_ethernet_header e b = Some eth" "sniffed_ip_header e b = Some ip" "print_transport e b = Some tp"
    and outs: "outs = [Printf (nl @ nl @ ''===== Packet #%d ====='' @ nl) [CInt (c + 1)],
      Printf (''Packet Size: %d bytes'' @ nl) [CInt n]] @ eth @ ip @ tp @
      [Printf (''======================================'' @ nl) []]"
    using p by (auto simp: process_packet_def Let_def split: bind_splits if_splits)
  note parts = not_in_ethernet [OF h(1)] in_sniffed_ip_header [OF h(2) l]
  have p: "load8 b 23 = Some (b ! 23)" using l by (simp add: load8_def)
  have t: "printed (nl @ ''Protocol: '' @ f) tp = dispatched f (b ! 23)" for f
    by (rule print_transport_dispatches [OF h(3) p])
  show ?thesis
    using parts(1,3) parts(2,4) [where f = "''TCP'' @ nl"] parts(2,4) [where f = "''UDP'' @ nl"]
      parts(2,4) [where f = "''ICMP'' @ nl"] parts(2,4) [where f = "''Other (%d)'' @ nl"]
      t [of "''TCP'' @ nl"] t [of "''UDP'' @ nl"] t [of "''ICMP'' @ nl"] t [of "''Other (%d)'' @ nl"]
    by (simp add: says_protocol_def outs printed_append dispatched_def)
qed

lemma sniffer_round_frame:
  assumes "length buf = 65536" and "length frame \<le> 65536" and "c < 2147483647"
  shows "\<exists>outs. run (sniffer_round e \<lparr>sniffer_fd = fd, frame_buffer = buf, packets_seen = c\<rparr>) [reply_data frame a] =
      (Called (Recvfrom fd 65536) (reply_data frame a) # map Shown outs, [],
       Looped \<lparr>sniffer_fd = fd, frame_buffer = frame @ drop (length frame) buf, packets_seen = c + 1\<rparr>) \<and>
    says_protocol ((frame @ drop (length frame) buf) ! 23) outs"
proof -
  let ?b = "frame @ drop (length frame) buf"
  have l: "94 \<le> length ?b" and w: "write_bytes buf 0 frame = Some ?b"
    using assms(1,2) by (simp_all add: write_bytes_def)
  obtain outs where p: "process_packet e ?b (int (length frame)) c = Some (outs, c + 1)"
    using process_packet_total [OF l assms(3)] by blast
  have "24 \<le> length ?b" using l by simp
  then show ?thesis
    using p w assms(2) process_packet_says_protocol [OF p] by (auto simp: sniffer_round_def received_len_def)
qed

text \<open>C36: a short frame is reported with bytes of the frame before it. After a frame of at least 24
  bytes, which is reported with its own protocol, a frame of at most 23 bytes, whatever it is, is
  reported with the protocol of the first one, in the IP part and in the dispatch to TCP, UDP,
  ICMP or others, although it has no protocol byte: its size is compared with nothing.\<close>

theorem sniffer_reports_stale_bytes:
  assumes "length buf = 65536" and "24 \<le> length frame" "length frame \<le> 65536" and "length short \<le> 23" and "c < 2147483646"
  shows "\<exists>outs v outs' v'.
    run (sniffer_round e \<lparr>sniffer_fd = fd, frame_buffer = buf, packets_seen = c\<rparr>) [reply_data frame a] =
      (Called (Recvfrom fd 65536) (reply_data frame a) # map Shown outs, [], Looped v) \<and>
    run (sniffer_round e v) [reply_data short a'] =
      (Called (Recvfrom fd 65536) (reply_data short a') # map Shown outs', [], Looped v') \<and>
    says_protocol (frame ! 23) outs \<and> says_protocol (frame ! 23) outs'"
proof -
  let ?b = "frame @ drop (length frame) buf"
  have b: "length ?b = 65536" "?b ! 23 = frame ! 23" using assms(1-3) by (simp_all add: nth_append)
  have b23: "(short @ drop (length short) ?b) ! 23 = frame ! 23"
    using assms(4) b nth_drop [of "length short" ?b "23 - length short"] by (simp add: nth_append del: nth_drop drop_append)
  have c: "c < 2147483647" "c + 1 < 2147483647" and s: "length short \<le> 65536" using assms(4,5) by simp_all
  from sniffer_round_frame [OF assms(1,3) c(1), of e fd a] sniffer_round_frame [OF b(1) s c(2), of e fd a']
  show ?thesis unfolding b(2) b23 by blast
qed

theorem sniffer_reports_stale_bytes_witness:
  "\<exists>outs v outs' v'.
    run (sniffer_round Little \<lparr>sniffer_fd = 3, frame_buffer = replicate 65536 0, packets_seen = 1\<rparr>)
       [reply_data (replicate 60 17) \<lparr>sin_port = 0, sin_addr = 0\<rparr>] =
      (Called (Recvfrom 3 65536) (reply_data (replicate 60 17) \<lparr>sin_port = 0, sin_addr = 0\<rparr>) # map Shown outs, [], Looped v) \<and>
    run (sniffer_round Little v) [reply_data (replicate 14 0xFF) \<lparr>sin_port = 0, sin_addr = 0\<rparr>] =
      (Called (Recvfrom 3 65536) (reply_data (replicate 14 0xFF) \<lparr>sin_port = 0, sin_addr = 0\<rparr>) # map Shown outs', [], Looped v') \<and>
    says_protocol 17 outs \<and> says_protocol 17 outs'"
  using sniffer_reports_stale_bytes [of "replicate 65536 0" "replicate 60 17" "replicate 14 0xFF" 1 Little 3
      "\<lparr>sin_port = 0, sin_addr = 0\<rparr>" "\<lparr>sin_port = 0, sin_addr = 0\<rparr>"]
  by (simp)

text \<open>The dispatch on the IP protocol does not look at the EtherType: the IP and transport
  parts of the report are the same for every value of it.\<close>

lemma sniffer_ignores_ethertype:
  "sniffed_ip_header e (b[12 := x, 13 := y]) = sniffed_ip_header e b"
  "print_transport e (b[12 := x, 13 := y]) = print_transport e b"
proof -
  let ?b = "b[12 := x, 13 := y]"
  have l8: "load8 ?b k = load8 b k" if "14 \<le> k" for k using that by (simp add: load8_def)
  have l16: "load16 e ?b k = load16 e b k" if "14 \<le> k" for k
    using that by (simp add: load16_def load_obj_def drop_update_cancel)
  have l32: "load32 e ?b k = load32 e b k" if "14 \<le> k" for k
    using that by (simp add: load32_def load_obj_def drop_update_cancel)
  have t: "transport_offset ?b = transport_offset b" by (simp add: transport_offset_def l8)
  have t14: "14 \<le> t" if "transport_offset b = Some t" for t
    using that by (auto simp: transport_offset_def Let_def split: bind_splits)
  show "sniffed_ip_header e ?b = sniffed_ip_header e b"
    by (simp add: sniffed_ip_header_def l8 l16 l32)
  have "print_tcp_header e ?b = print_tcp_header e b" "print_udp_header e ?b = print_udp_header e b"
    "print_icmp_header e ?b = print_icmp_header e b"
    using t14
    by (cases "transport_offset b"; simp add: print_tcp_header_def print_udp_header_def print_icmp_header_def t l8 l16 l32)+
  then show "print_transport e ?b = print_transport e b"
    by (simp add: print_transport_def l8 cong: if_cong)
qed

text \<open>A TCP segment in network order.\<close>

definition wire_tcp :: "u16 \<Rightarrow> u16 \<Rightarrow> u32 \<Rightarrow> u32 \<Rightarrow> u8 \<Rightarrow> u8 \<Rightarrow> u16 \<Rightarrow> u16 \<Rightarrow> u16 \<Rightarrow> bytes \<Rightarrow> bytes" where
  "wire_tcp sport dport seq ack off flags window ck urg rest =
     enc Big sport @ enc Big dport @ enc Big seq @ enc Big ack @ [off, flags] @
     enc Big window @ enc Big ck @ enc Big urg @ rest"

lemma printed_flag: "printed f (if c then [Printf g []] else []) = (if c \<and> f = g then Some [] else None)"
  by simp

lemma load_obj_drop: "t \<le> length b \<Longrightarrow> load_obj n d b (t + k) = load_obj n d (drop t b) k"
  by (simp add: load_obj_def add.commute add.left_commute) arith

lemma load_drop:
  assumes "t \<le> length b"
  shows "load8 b (t + k) = load8 (drop t b) k" "load16 e b (t + k) = load16 e (drop t b) k"
    "load32 e b (t + k) = load32 e (drop t b) k" "load8 b t = load8 (drop t b) 0" "load16 e b t = load16 e (drop t b) 0"
  using load_obj_drop [OF assms, where n = 2 and d = "dec e"] load_obj_drop [OF assms, where n = 4 and d = "dec e"]
    load_obj_drop [OF assms, where n = 2 and d = "dec e" and k = 0] assms
  by (auto simp: load8_def load16_def load32_def)

text \<open>What follows the IP header of a frame is found at \<open>transport_offset\<close>.\<close>

lemma transport_at:
  assumes frame: "frame = eth @ wire_ipv4 vi t tlen idn ff hops proto ipck src dst (opts @ body)"
    and "length eth = 14" and "5 \<le> unat vi mod 16" and "length opts = 4 * (unat vi mod 16) - 20"
  obtains k where "transport_offset frame = Some k" and "k \<le> length frame" and "drop k frame = body"
    and "load8 frame 23 = Some proto"
proof -
  let ?t = "4 * (unat vi mod 16) + 14"
  have vi: "frame ! 14 = vi" and proto: "load8 frame 23 = Some proto"
    using assms(2) by (simp_all add: frame wire_ipv4_def nth_append load8_def)
  define pre where "pre = eth @ wire_ipv4 vi t tlen idn ff hops proto ipck src dst opts"
  have "frame = pre @ body" and "length pre = ?t"
    using assms(2-4) by (simp_all add: frame pre_def wire_ipv4_def)
  then have "drop ?t frame = body" and "?t \<le> length frame" by simp_all
  moreover have "transport_offset frame = Some ?t"
    using assms(2) by (subst transport_offset_eq) (simp_all add: vi, simp add: frame wire_ipv4_def)
  ultimately show thesis using that proto by blast
qed

lemma wire_tcp_loads:
  assumes b: "drop t b = wire_tcp sport dport seq ack off flags window ck urg rest" and t: "t \<le> length b"
  shows "load16 e b t = Some (hton e sport)" "load16 e b (t + 2) = Some (hton e dport)"
    "load32 e b (t + 4) = Some (hton e seq)" "load32 e b (t + 8) = Some (hton e ack)"
    "load8 b (t + 12) = Some off" "load8 b (t + 13) = Some flags"
    "load16 e b (t + 14) = Some (hton e window)" "load16 e b (t + 16) = Some (hton e ck)"
    "load16 e b (t + 18) = Some (hton e urg)"
  unfolding load_drop [OF t] b
  by (simp_all add: wire_tcp_def load8_def load16_def load32_def load_obj_def hton_def nth_append)

text \<open>The headers of UDP and ICMP in network order.\<close>

definition wire_udp :: "u16 \<Rightarrow> u16 \<Rightarrow> u16 \<Rightarrow> u16 \<Rightarrow> bytes \<Rightarrow> bytes" where
  "wire_udp sport dport len ck rest = enc Big sport @ enc Big dport @ enc Big len @ enc Big ck @ rest"

definition wire_icmp :: "u8 \<Rightarrow> u8 \<Rightarrow> u16 \<Rightarrow> bytes \<Rightarrow> bytes" where
  "wire_icmp kind code ck rest = [kind, code] @ enc Big ck @ rest"

lemma wire_udp_loads:
  assumes b: "drop t b = wire_udp sport dport len ck rest" and t: "t \<le> length b"
  shows "load16 e b t = Some (hton e sport)" "load16 e b (t + 2) = Some (hton e dport)"
    "load16 e b (t + 4) = Some (hton e len)" "load16 e b (t + 6) = Some (hton e ck)"
  unfolding load_drop [OF t] b by (simp_all add: wire_udp_def load16_def load_obj_def hton_def)

lemma wire_icmp_loads:
  assumes b: "drop t b = wire_icmp kind code ck rest" and t: "t \<le> length b"
  shows "load8 b t = Some kind" "load8 b (t + 1) = Some code" "load16 e b (t + 2) = Some (hton e ck)"
  unfolding load_drop [OF t] b by (simp_all add: wire_icmp_def load8_def load16_def load_obj_def hton_def)

lemma header_words:
  fixes off :: u8
  shows "uint (drop_bit 4 off) = uint off div 16" and "uint ((ucast (drop_bit 4 off) :: u32) * 4) = 4 * (uint off div 16)"
proof -
  show d: "uint (drop_bit 4 off) = uint off div 16"
    by (simp add: unsigned_drop_bit_eq drop_bit_eq_div uint_div_distrib)
  have "0 \<le> uint off div 16" "uint off div 16 < 16" using uint_lt2p [of off] by (simp_all add: pos_imp_zdiv_nonneg_iff)
  then show "uint ((ucast (drop_bit 4 off) :: u32) * 4) = 4 * (uint off div 16)"
    using d by (simp add: uint_word_arith_bintrs take_bit_eq_mod unsigned_ucast_eq)
qed

text \<open>The names of the flags and their bits in the flags byte.\<close>

definition tcp_flags :: "(string \<times> nat) list" where
  "tcp_flags = [(''URG '', 5), (''ACK '', 4), (''PSH '', 3), (''RST '', 2), (''SYN '', 1), (''FIN '', 0)]"

definition is_flag_line :: "out \<Rightarrow> bool" where
  "is_flag_line x \<longleftrightarrow> x \<in> set (map (\<lambda>(f, k). Printf f []) tcp_flags)"

definition flag_lines :: "out list \<Rightarrow> out list" where
  "flag_lines outs = filter is_flag_line outs"

lemma flag_lines_simps:
  "flag_lines [] = []" "flag_lines (xs @ ys) = flag_lines xs @ flag_lines ys"
  "flag_lines (x # xs) = (if is_flag_line x then x # flag_lines xs else flag_lines xs)"
  by (simp_all add: flag_lines_def)

lemma flag_lines_if: "flag_lines (if c then [x] else []) = (if c \<and> is_flag_line x then [x] else [])"
  by (cases c) (simp_all add: flag_lines_simps)

text \<open>C33: the TCP report of a segment on the wire. On either host, for every IP header length and
  whatever follows, every line of the report shows the value of the wire: the ports, the sequence
  and acknowledgement numbers, the header length in words and in bytes, the names of exactly the
  flags that are set, in their order, the window and the checksum; the urgent pointer alone is
  shown without \<open>ntohs\<close>, with its bytes exchanged on a little-endian host.\<close>

theorem sniffer_shows_tcp_wire_fields:
  assumes frame: "frame = eth @ wire_ipv4 vi t tlen idn ff hops 6 ipck src dst
      (opts @ wire_tcp sport dport seq ack off flags window ck urg rest)"
    and "length eth = 14" and "5 \<le> unat vi mod 16" and "length opts = 4 * (unat vi mod 16) - 20"
  shows "\<exists>shown. print_transport e frame = Some (Printf (nl @ ''Protocol: TCP'' @ nl) [] # shown) \<and>
    printed (''   |-Source Port      : %u'' @ nl) shown = Some [of_u sport] \<and>
    printed (''   |-Destination Port : %u'' @ nl) shown = Some [of_u dport] \<and>
    printed (''   |-Sequence Number  : %u'' @ nl) shown = Some [of_u seq] \<and>
    printed (''   |-Acknowledge Number: %u'' @ nl) shown = Some [of_u ack] \<and>
    printed (''   |-Header Length    : %d DWORDS (%d Bytes)'' @ nl) shown =
      Some [CInt (uint off div 16), CInt (4 * (uint off div 16))] \<and>
    flag_lines shown = concat (map (\<lambda>(f, k). if bit flags k then [Printf f []] else []) tcp_flags) \<and>
    printed (''   |-Window Size      : %d'' @ nl) shown = Some [of_u window] \<and>
    printed (''   |-Checksum         : 0x%.4x'' @ nl) shown = Some [of_u ck] \<and>
    printed (''   |-Urgent Pointer   : %d'' @ nl) shown = Some [of_u (hton e urg)]"
proof -
  obtain k where k: "transport_offset frame = Some k" "k \<le> length frame"
      "drop k frame = wire_tcp sport dport seq ack off flags window ck urg rest" and proto: "load8 frame 23 = Some 6"
    by (rule transport_at [OF assms])
  note loads = wire_tcp_loads [OF k(3,2)]
  have n: "ntoh e (hton e (w :: u16)) = w" for w by (rule ntoh_hton [where n = 2]) simp
  have n4: "ntoh e (hton e (w :: u32)) = w" for w by (rule ntoh_hton [where n = 4]) simp
  have d: "uint (drop_bit 4 off) = uint off div 16" "uint ((ucast (drop_bit 4 off) :: u32) * 4) = 4 * (uint off div 16)"
    using header_words [of off] by simp_all
  show ?thesis
    by (simp add: print_transport_def proto print_tcp_header_def k(1) loads Let_def printed_append printed_flag n n4 d
        flag_lines_simps flag_lines_if is_flag_line_def tcp_flags_def split del: if_split del: add_2_eq_Suc')
qed

theorem sniffer_shows_tcp_wire_fields_witness:
  "\<exists>shown. print_transport Little (replicate 14 0 @ wire_ipv4 0x45 0 40 7 0 64 6 0 1 2
        ([] @ wire_tcp 443 8080 1 2 0x50 0x12 512 0 0x0102 [])) =
      Some (Printf (nl @ ''Protocol: TCP'' @ nl) [] # shown) \<and>
    printed (''   |-Source Port      : %u'' @ nl) shown = Some [of_u (443 :: u16)] \<and>
    printed (''   |-Header Length    : %d DWORDS (%d Bytes)'' @ nl) shown = Some [CInt 5, CInt 20] \<and>
    flag_lines shown = [Printf ''ACK '' [], Printf ''SYN '' []] \<and>
    printed (''   |-Urgent Pointer   : %d'' @ nl) shown = Some [of_u (hton Little (0x0102 :: u16))]"
proof -
  have "length (replicate 14 (0 :: u8)) = 14" "5 \<le> unat (0x45 :: u8) mod 16" "length ([] :: bytes) = 4 * (unat (0x45 :: u8) mod 16) - 20"
    by simp_all
  from sniffer_shows_tcp_wire_fields [OF refl this, where e = Little and sport = 443 and urg = "0x0102"
      and t = 0 and tlen = 40 and idn = 7 and ff = 0 and hops = 64 and ipck = 0 and src = 1 and dst = 2
      and dport = 8080 and seq = 1 and ack = 2 and off = "0x50" and flags = "0x12" and window = 512 and ck = 0 and rest = "[]"]
  show ?thesis by (auto simp: tcp_flags_def)
qed

text \<open>C34: the UDP and ICMP reports of packets on the wire. On either host, for every IP header length
  and whatever follows, the ports, the length and the checksum of UDP, and the type, the code
  and the checksum of ICMP are shown with the values of the wire.\<close>

theorem sniffer_shows_udp_icmp_wire_fields:
  assumes udp: "uframe = eth @ wire_ipv4 vi t tlen idn ff hops 17 ipck src dst (opts @ wire_udp sport dport len ck rest)"
    and icmp: "iframe = eth @ wire_ipv4 vi t tlen idn ff hops 1 ipck src dst (opts @ wire_icmp kind code ick rest)"
    and "length eth = 14" and "5 \<le> unat vi mod 16" and "length opts = 4 * (unat vi mod 16) - 20"
  shows "(\<exists>shown. print_transport e uframe = Some (Printf (nl @ ''Protocol: UDP'' @ nl) [] # shown) \<and>
      printed (''   |-Source Port      : %d'' @ nl) shown = Some [of_u sport] \<and>
      printed (''   |-Destination Port : %d'' @ nl) shown = Some [of_u dport] \<and>
      printed (''   |-UDP Length       : %d'' @ nl) shown = Some [of_u len] \<and>
      printed (''   |-UDP Checksum     : 0x%.4x'' @ nl) shown = Some [of_u ck]) \<and>
    (\<exists>shown. print_transport e iframe = Some (Printf (nl @ ''Protocol: ICMP'' @ nl) [] # shown) \<and>
      printed (''   |-Type     : %d'' @ nl) shown = Some [of_u kind] \<and>
      printed (''   |-Code     : %d'' @ nl) shown = Some [of_u code] \<and>
      printed (''   |-Checksum : 0x%.4x'' @ nl) shown = Some [of_u ick])"
proof
  have n: "ntoh e (hton e (w :: u16)) = w" for w by (rule ntoh_hton [where n = 2]) simp
  obtain k where k: "transport_offset uframe = Some k" "k \<le> length uframe"
      "drop k uframe = wire_udp sport dport len ck rest" and proto: "load8 uframe 23 = Some 17"
    by (rule transport_at [OF udp assms(3-5)])
  show "\<exists>shown. print_transport e uframe = Some (Printf (nl @ ''Protocol: UDP'' @ nl) [] # shown) \<and>
      printed (''   |-Source Port      : %d'' @ nl) shown = Some [of_u sport] \<and>
      printed (''   |-Destination Port : %d'' @ nl) shown = Some [of_u dport] \<and>
      printed (''   |-UDP Length       : %d'' @ nl) shown = Some [of_u len] \<and>
      printed (''   |-UDP Checksum     : 0x%.4x'' @ nl) shown = Some [of_u ck]"
    using wire_udp_loads [OF k(3,2)]
    by (simp add: print_transport_def proto print_udp_header_def k(1) n del: add_2_eq_Suc')
  obtain k where k: "transport_offset iframe = Some k" "k \<le> length iframe"
      "drop k iframe = wire_icmp kind code ick rest" and proto: "load8 iframe 23 = Some 1"
    by (rule transport_at [OF icmp assms(3-5)])
  show "\<exists>shown. print_transport e iframe = Some (Printf (nl @ ''Protocol: ICMP'' @ nl) [] # shown) \<and>
      printed (''   |-Type     : %d'' @ nl) shown = Some [of_u kind] \<and>
      printed (''   |-Code     : %d'' @ nl) shown = Some [of_u code] \<and>
      printed (''   |-Checksum : 0x%.4x'' @ nl) shown = Some [of_u ick]"
    using wire_icmp_loads [OF k(3,2)]
    by (simp add: print_transport_def proto print_icmp_header_def k(1) n del: add_2_eq_Suc')
qed

theorem sniffer_shows_udp_icmp_wire_fields_witness:
  "\<exists>shown. print_transport Little (replicate 14 0 @ wire_ipv4 0x45 0 28 7 0 64 17 0 1 2 ([] @ wire_udp 53 5353 8 0xABCD [])) =
      Some (Printf (nl @ ''Protocol: UDP'' @ nl) [] # shown) \<and>
    printed (''   |-Source Port      : %d'' @ nl) shown = Some [of_u (53 :: u16)] \<and>
    printed (''   |-UDP Checksum     : 0x%.4x'' @ nl) shown = Some [of_u (0xABCD :: u16)]"
proof -
  have "length (replicate 14 (0 :: u8)) = 14" "5 \<le> unat (0x45 :: u8) mod 16" "length ([] :: bytes) = 4 * (unat (0x45 :: u8) mod 16) - 20"
    by simp_all
  from sniffer_shows_udp_icmp_wire_fields [OF refl refl this, where e = Little and sport = 53 and dport = 5353 and len = 8
      and ck = "0xABCD" and t = 0 and tlen = 28 and idn = 7 and ff = 0 and hops = 64 and ipck = 0 and src = 1 and dst = 2
      and rest = "[]" and kind = 8 and code = 0 and ick = 0]
  show ?thesis by blast
qed

end
