(* ===== verification/WireGuard.thy ===== *)
theory WireGuard
  imports HexDump
begin

text \<open>
  The WireGuard simulation of coding-problems/11_wireguard_concepts.c: the three packed
  messages, the peers with their counters, the hex dump, the handshake and the data packets.

  A message is its bytes, written field by field at the offsets of the packed structs (a
  \<open>layout\<close> each: 148, 92 and 16 bytes and a payload). \<open>rand\<close> is an argument, and so is \<open>malloc\<close>: a function from
  the size to the new block, \<open>None\<close> for \<open>NULL\<close>. A peer is a record; its key and name arrays are
  bytes, uninitialised before \<open>create_peer\<close>.
\<close>

section \<open>The code\<close>

record wg_peer =
  peer_name :: bytes
  public_key :: bytes
  private_key :: bytes
  session_index :: u32
  tx_counter :: u64
  rx_counter :: u64

text \<open>The three packed messages; \<open>encrypted_data\<close> is a flexible array.\<close>

definition wg_handshake_init_t :: layout where
  "wg_handshake_init_t =
     [(''type'', 1), (''reserved'', 3), (''sender_index'', 4), (''ephemeral'', 32), (''encrypted_static'', 48),
      (''encrypted_timestamp'', 28), (''mac1'', 16), (''mac2'', 16)]"

definition wg_handshake_resp_t :: layout where
  "wg_handshake_resp_t =
     [(''type'', 1), (''reserved'', 3), (''sender_index'', 4), (''receiver_index'', 4), (''ephemeral'', 32),
      (''encrypted_nothing'', 16), (''mac1'', 16), (''mac2'', 16)]"

definition wg_data_packet_t :: layout where
  "wg_data_packet_t =
     [(''type'', 1), (''reserved'', 3), (''receiver_index'', 4), (''counter'', 8), (''encrypted_data'', 0)]"

lemma wg_layouts [simp]:
  "sizeof wg_handshake_init_t = 148" "sizeof wg_handshake_resp_t = 92" "sizeof wg_data_packet_t = 16"
  "offset_of wg_handshake_init_t ''type'' = 0" "offset_of wg_handshake_init_t ''sender_index'' = 4"
  "offset_of wg_handshake_init_t ''ephemeral'' = 8" "offset_of wg_handshake_init_t ''encrypted_static'' = 40"
  "offset_of wg_handshake_init_t ''encrypted_timestamp'' = 88" "offset_of wg_handshake_init_t ''mac1'' = 116"
  "offset_of wg_handshake_init_t ''mac2'' = 132"
  "offset_of wg_handshake_resp_t ''type'' = 0" "offset_of wg_handshake_resp_t ''sender_index'' = 4"
  "offset_of wg_handshake_resp_t ''receiver_index'' = 8" "offset_of wg_handshake_resp_t ''ephemeral'' = 12"
  "offset_of wg_handshake_resp_t ''encrypted_nothing'' = 44" "offset_of wg_handshake_resp_t ''mac1'' = 60"
  "offset_of wg_handshake_resp_t ''mac2'' = 76"
  "offset_of wg_data_packet_t ''type'' = 0" "offset_of wg_data_packet_t ''reserved'' = 1"
  "offset_of wg_data_packet_t ''receiver_index'' = 4" "offset_of wg_data_packet_t ''counter'' = 8"
  "offset_of wg_data_packet_t ''encrypted_data'' = 16"
  by (simp_all add: wg_handshake_init_t_def wg_handshake_resp_t_def wg_data_packet_t_def sizeof_def)

text \<open>The loop of \<open>print_hex\<close> from index \<open>i\<close>, with \<open>n\<close> bytes to go.\<close>

fun print_hex_loop :: "string \<Rightarrow> bytes \<Rightarrow> nat \<Rightarrow> nat \<Rightarrow> out list option" where
  "print_hex_loop label bs i 0 = Some []"
| "print_hex_loop label bs i (Suc n) = do {
     b \<leftarrow> load8 bs i;
     rest \<leftarrow> print_hex_loop label bs (i + 1) n;
     Some (Printf ''%02X'' [of_u b] #
       (if (i + 1) mod 32 = 0 \<and> n \<noteq> 0
        then [Printf (nl @ ''%*s'') [CInt (int (length label) + 2), CStr []]] else []) @ rest) }"

definition print_hex :: "string \<Rightarrow> bytes \<Rightarrow> nat \<Rightarrow> out list option" where
  "print_hex label bs n = do {
     shown \<leftarrow> print_hex_loop label bs 0 n;
     Some ([Printf ''%s: '' [CStr label]] @ shown @ [Printf nl []]) }"

definition generate_random :: "'g rand \<Rightarrow> bytes \<Rightarrow> nat \<Rightarrow> int \<Rightarrow> 'g \<Rightarrow> (bytes \<times> 'g) option" where
  "generate_random rnd mem off n g = fill_random rnd mem off (nat n) g"

definition generate_keypair :: "'g rand \<Rightarrow> bytes \<Rightarrow> bytes \<Rightarrow> 'g \<Rightarrow> (bytes \<times> bytes \<times> 'g) option" where
  "generate_keypair rnd private public g = do {
     (private, g) \<leftarrow> generate_random rnd private 0 32 g;
     (public, g) \<leftarrow> generate_random rnd public 0 32 g;
     Some (private, public, g) }"

definition create_peer :: "'g rand \<Rightarrow> wg_peer \<Rightarrow> string \<Rightarrow> 'g \<Rightarrow> (wg_peer \<times> 'g) option" where
  "create_peer rnd p text g = do {
     n \<leftarrow> strncpy (peer_name p) (bytes_of text) 31;
     (private, public, g) \<leftarrow> generate_keypair rnd (private_key p) (public_key p) g;
     let (r, g) = rnd g;
     Some (p\<lparr>peer_name := n, private_key := private, public_key := public, session_index := r,
             tx_counter := 0, rx_counter := 0\<rparr>, g) }"

text \<open>
  The local key arrays are overwritten as a whole, so their content before is taken as zeros.
\<close>

definition create_handshake_initiation ::
    "'g rand \<Rightarrow> endian \<Rightarrow> wg_peer \<Rightarrow> wg_peer \<Rightarrow> bytes \<Rightarrow> 'g \<Rightarrow> (out list \<times> bytes \<times> 'g) option" where
  "create_handshake_initiation rnd e initiator responder msg g = do {
     from_name \<leftarrow> c_string (peer_name initiator);
     to_name \<leftarrow> c_string (peer_name responder);
     msg \<leftarrow> memset msg 0 0 (sizeof wg_handshake_init_t);
     msg \<leftarrow> store8 msg (offset_of wg_handshake_init_t ''type'') 1;
     msg \<leftarrow> store_word e msg (offset_of wg_handshake_init_t ''sender_index'') (hton e (session_index initiator));
     (ephemeral_private, ephemeral_public, g) \<leftarrow> generate_keypair rnd (replicate 32 0) (replicate 32 0) g;
     msg \<leftarrow> write_bytes msg (offset_of wg_handshake_init_t ''ephemeral'') ephemeral_public;
     (msg, g) \<leftarrow> generate_random rnd msg (offset_of wg_handshake_init_t ''encrypted_static'') 48 g;
     (msg, g) \<leftarrow> generate_random rnd msg (offset_of wg_handshake_init_t ''encrypted_timestamp'') 28 g;
     (msg, g) \<leftarrow> generate_random rnd msg (offset_of wg_handshake_init_t ''mac1'') 16 g;
     (msg, g) \<leftarrow> generate_random rnd msg (offset_of wg_handshake_init_t ''mac2'') 16 g;
     msg_type \<leftarrow> load8 msg (offset_of wg_handshake_init_t ''type'');
     sender \<leftarrow> load32 e msg (offset_of wg_handshake_init_t ''sender_index'');
     hex \<leftarrow> print_hex ''Ephemeral Public Key'' (drop (offset_of wg_handshake_init_t ''ephemeral'') msg) 32;
     Some
       ([Printf (nl @ ''========== HANDSHAKE INITIATION =========='' @ nl @ nl) [],
         Printf (''[%s] Creating handshake initiation to [%s]'' @ nl @ nl)
           [CStr (string_of from_name), CStr (string_of to_name)],
         Printf (''Message Type: %d (Handshake Initiation)'' @ nl) [of_u msg_type],
         Printf (''Sender Index: 0x%08X'' @ nl) [of_u (ntoh e sender)]] @
        hex @
        [Printf nl [],
         Printf (''Encrypted Static Key: [48 bytes - encrypted with responder'' @ [CHR 0x27] @ ''s public key]'' @ nl) [],
         Printf (''Encrypted Timestamp: [28 bytes - for replay protection]'' @ nl) [],
         Printf (''MAC1: [16 bytes - authenticates message]'' @ nl) [],
         Printf (''MAC2: [16 bytes - optional, for DoS protection]'' @ nl) [],
         Printf (nl @ ''Cryptographic Operations:'' @ nl) [],
         Printf (''1. Generate ephemeral keypair (Curve25519)'' @ nl) [],
         Printf (''2. Compute shared secret: ECDH(ephemeral_priv, responder_pub)'' @ nl) [],
         Printf (''3. Encrypt static public key with ChaCha20-Poly1305'' @ nl) [],
         Printf (''4. Encrypt current timestamp'' @ nl) [],
         Printf (''5. Compute MAC1 over entire message'' @ nl) [],
         Printf (nl @ ''Total Message Size: %lu bytes'' @ nl) [CInt (int (sizeof wg_handshake_init_t))]], msg, g) }"

definition create_handshake_response ::
    "'g rand \<Rightarrow> endian \<Rightarrow> wg_peer \<Rightarrow> bytes \<Rightarrow> bytes \<Rightarrow> 'g \<Rightarrow> (out list \<times> bytes \<times> 'g) option" where
  "create_handshake_response rnd e responder init_msg msg g = do {
     from_name \<leftarrow> c_string (peer_name responder);
     msg \<leftarrow> memset msg 0 0 (sizeof wg_handshake_resp_t);
     msg \<leftarrow> store8 msg (offset_of wg_handshake_resp_t ''type'') 2;
     msg \<leftarrow> store_word e msg (offset_of wg_handshake_resp_t ''sender_index'') (hton e (session_index responder));
     init_sender \<leftarrow> load32 e init_msg (offset_of wg_handshake_init_t ''sender_index'');
     msg \<leftarrow> store_word e msg (offset_of wg_handshake_resp_t ''receiver_index'') init_sender;
     (ephemeral_private, ephemeral_public, g) \<leftarrow> generate_keypair rnd (replicate 32 0) (replicate 32 0) g;
     msg \<leftarrow> write_bytes msg (offset_of wg_handshake_resp_t ''ephemeral'') ephemeral_public;
     (msg, g) \<leftarrow> generate_random rnd msg (offset_of wg_handshake_resp_t ''encrypted_nothing'') 16 g;
     (msg, g) \<leftarrow> generate_random rnd msg (offset_of wg_handshake_resp_t ''mac1'') 16 g;
     (msg, g) \<leftarrow> generate_random rnd msg (offset_of wg_handshake_resp_t ''mac2'') 16 g;
     msg_type \<leftarrow> load8 msg (offset_of wg_handshake_resp_t ''type'');
     sender \<leftarrow> load32 e msg (offset_of wg_handshake_resp_t ''sender_index'');
     receiver \<leftarrow> load32 e msg (offset_of wg_handshake_resp_t ''receiver_index'');
     hex \<leftarrow> print_hex ''Ephemeral Public Key'' (drop (offset_of wg_handshake_resp_t ''ephemeral'') msg) 32;
     Some
       ([Printf (nl @ ''========== HANDSHAKE RESPONSE =========='' @ nl @ nl) [],
         Printf (''[%s] Creating handshake response'' @ nl @ nl) [CStr (string_of from_name)],
         Printf (''Message Type: %d (Handshake Response)'' @ nl) [of_u msg_type],
         Printf (''Sender Index: 0x%08X'' @ nl) [of_u (ntoh e sender)],
         Printf (''Receiver Index: 0x%08X'' @ nl) [of_u (ntoh e receiver)]] @
        hex @
        [Printf nl [],
         Printf (''Encrypted Empty: [16 bytes - auth tag only]'' @ nl) [],
         Printf (''MAC1: [16 bytes]'' @ nl) [],
         Printf (''MAC2: [16 bytes]'' @ nl) [],
         Printf (nl @ ''Cryptographic Operations:'' @ nl) [],
         Printf (''1. Verify MAC1 from initiation message'' @ nl) [],
         Printf (''2. Decrypt and verify initiator'' @ [CHR 0x27] @ ''s static key'' @ nl) [],
         Printf (''3. Generate own ephemeral keypair'' @ nl) [],
         Printf (''4. Derive session keys using Noise protocol'' @ nl) [],
         Printf (''5. Encrypt empty payload (proves key derivation)'' @ nl) [],
         Printf (''6. Compute MAC1 over response'' @ nl) [],
         Printf (nl @ ''Total Message Size: %lu bytes'' @ nl) [CInt (int (sizeof wg_handshake_resp_t))],
         Printf (nl @ ''['' @ check_mark @ ''] Handshake Complete! Session keys established.'' @ nl) []], msg, g) }"

text \<open>The size is computed in \<open>size_t\<close> and converted to \<open>int\<close>.\<close>

definition data_packet_size :: "int \<Rightarrow> int" where
  "data_packet_size payload_len = sint (word_of_int (int (sizeof wg_data_packet_t) + payload_len + 16) :: u32)"

definition create_data_packet ::
    "'g rand \<Rightarrow> (int \<Rightarrow> bytes option) \<Rightarrow> endian \<Rightarrow> wg_peer \<Rightarrow> string \<Rightarrow> int \<Rightarrow> 'g \<Rightarrow>
     (out list \<times> bytes \<times> wg_peer \<times> 'g) option" where
  "create_data_packet rnd malloc e sender text payload_len g = do {
     from_name \<leftarrow> c_string (peer_name sender);
     let total_size = data_packet_size payload_len;
     pkt \<leftarrow> malloc total_size;
     pkt \<leftarrow> store8 pkt (offset_of wg_data_packet_t ''type'') 4;
     pkt \<leftarrow> memset pkt (offset_of wg_data_packet_t ''reserved'') 0 3;
     pkt \<leftarrow> store_word e pkt (offset_of wg_data_packet_t ''receiver_index'') (hton e (session_index sender));
     pkt \<leftarrow> store_word e pkt (offset_of wg_data_packet_t ''counter'') (hton e (tx_counter sender));
     let sender = sender\<lparr>tx_counter := tx_counter sender + 1\<rparr>;
     random_len \<leftarrow> (if payload_len + 16 < 2 ^ 31 then Some (payload_len + 16) else None);
     (pkt, g) \<leftarrow> generate_random rnd pkt (offset_of wg_data_packet_t ''encrypted_data'') random_len g;
     pkt_type \<leftarrow> load8 pkt (offset_of wg_data_packet_t ''type'');
     receiver \<leftarrow> load32 e pkt (offset_of wg_data_packet_t ''receiver_index'');
     counter \<leftarrow> load64 e pkt (offset_of wg_data_packet_t ''counter'');
     Some
       ([Printf (nl @ ''========== DATA PACKET =========='' @ nl @ nl) [],
         Printf (''[%s] Sending data packet'' @ nl @ nl) [CStr (string_of from_name)],
         Printf (''Message Type: %d (Transport Data)'' @ nl) [of_u pkt_type],
         Printf (''Receiver Index: 0x%08X'' @ nl) [of_u (ntoh e receiver)],
         Printf (''Counter: %lu'' @ nl) [of_u (ntoh e counter)],
         Printf (''Payload Length: %d bytes (encrypted)'' @ nl) [CInt payload_len],
         Printf (''Auth Tag: 16 bytes (Poly1305)'' @ nl) [],
         Printf (''Total Overhead: 16 bytes (header + auth tag)'' @ nl) [],
         Printf (nl @ ''Actual Payload: '' @ [CHR 0x22] @ ''%s'' @ [CHR 0x22] @ nl) [CStr text],
         Printf (''Encrypted Payload: [hidden - ChaCha20-Poly1305 encrypted]'' @ nl) [],
         Printf (nl @ ''Total Packet Size: %d bytes'' @ nl) [CInt total_size]], pkt, sender, g) }"

definition compare_with_ipsec :: "out list" where
  "compare_with_ipsec =
     [Printf (nl @ nl @ ''========== WireGuard vs IPsec =========='' @ nl @ nl) [],
      Printf (''WIREGUARD ADVANTAGES:'' @ nl) [],
      Printf (''---------------------'' @ nl) [],
      Printf (check_mark @ '' Simpler: ~4,000 lines of code vs ~400,000 for IPsec'' @ nl) [],
      Printf (check_mark @ '' Faster: Less cryptographic overhead, efficient implementation'' @ nl) [],
      Printf (check_mark @ '' Modern crypto: Curve25519, ChaCha20, Poly1305, BLAKE2'' @ nl) [],
      Printf (check_mark @ '' No cipher negotiation: One secure suite, period'' @ nl) [],
      Printf (check_mark @ '' Stealth: No response to unauthenticated packets'' @ nl) [],
      Printf (check_mark @ '' Roaming: Seamless endpoint changes (mobile friendly)'' @ nl) [],
      Printf (check_mark @ '' Lower latency: Simpler state machine'' @ nl) [],
      Printf (check_mark @ '' Built-in DoS protection: Cookie mechanism'' @ nl @ nl) [],
      Printf (''IPsec ADVANTAGES:'' @ nl) [],
      Printf (''-----------------'' @ nl) [],
      Printf (check_mark @ '' Mature: Decades of deployment and testing'' @ nl) [],
      Printf (check_mark @ '' Standardized: IETF standard, wide vendor support'' @ nl) [],
      Printf (check_mark @ '' Flexible: Many cipher suites, modes, options'' @ nl) [],
      Printf (check_mark @ '' Enterprise ready: Better key management infrastructure'' @ nl) [],
      Printf (check_mark @ '' Hardware offload: Widely supported in network equipment'' @ nl @ nl) [],
      Printf (''CODE COMPLEXITY COMPARISON:'' @ nl) [],
      Printf (''---------------------------'' @ nl) [],
      Printf (''WireGuard:     ~4,000 lines (Linux kernel implementation)'' @ nl) [],
      Printf (''IPsec:       ~400,000 lines (strongSwan)'' @ nl) [],
      Printf (''OpenVPN:     ~100,000 lines'' @ nl @ nl) [],
      Printf (''HANDSHAKE COMPARISON:'' @ nl) [],
      Printf (''---------------------'' @ nl) [],
      Printf (''WireGuard: 1-RTT (1 round trip)'' @ nl) [],
      Printf (''  Client '' @ [CHR 0xE2, CHR 0x86, CHR 0x92] @ '' Server: Handshake Initiation (148 bytes)'' @ nl) [],
      Printf (''  Server '' @ [CHR 0xE2, CHR 0x86, CHR 0x92] @ '' Client: Handshake Response (92 bytes)'' @ nl) [],
      Printf (''  Total: 2 messages, 240 bytes'' @ nl @ nl) [],
      Printf (''IPsec/IKEv2: 2-RTT (2 round trips)'' @ nl) [],
      Printf (''  IKE_SA_INIT: Exchange DH, nonces'' @ nl) [],
      Printf (''  IKE_AUTH: Authentication and create CHILD_SA'' @ nl) [],
      Printf (''  Total: 4+ messages, much larger'' @ nl @ nl) [],
      Printf (''CRYPTOGRAPHY:'' @ nl) [],
      Printf (''-------------'' @ nl) [],
      Printf (''WireGuard:'' @ nl) [],
      Printf (''  Key Exchange:    Curve25519 (ECDH)'' @ nl) [],
      Printf (''  Encryption:      ChaCha20'' @ nl) [],
      Printf (''  Authentication:  Poly1305'' @ nl) [],
      Printf (''  Hash:            BLAKE2s'' @ nl) [],
      Printf (''  Combined:        ChaCha20-Poly1305 AEAD'' @ nl @ nl) [],
      Printf (''IPsec (typical):'' @ nl) [],
      Printf (''  Key Exchange:    DH groups 14-20, ECDH'' @ nl) [],
      Printf (''  Encryption:      AES-CBC, AES-GCM, 3DES'' @ nl) [],
      Printf (''  Authentication:  HMAC-SHA256, HMAC-SHA512'' @ nl) [],
      Printf (''  Hash:            SHA-2 family'' @ nl) [],
      Printf (''  Many options:    Configuration complexity'' @ nl @ nl) [],
      Printf (''WHEN TO USE WIREGUARD:'' @ nl) [],
      Printf (''----------------------'' @ nl) [],
      Printf (check_mark @ '' Personal VPN'' @ nl) [],
      Printf (check_mark @ '' Site-to-site VPN (simple setups)'' @ nl) [],
      Printf (check_mark @ '' Cloud interconnects'' @ nl) [],
      Printf (check_mark @ '' Container networking'' @ nl) [],
      Printf (check_mark @ '' Mobile clients (roaming)'' @ nl) [],
      Printf (check_mark @ '' Performance-critical applications'' @ nl) [],
      Printf (check_mark @ '' Modern infrastructure'' @ nl @ nl) [],
      Printf (''WHEN TO USE IPsec:'' @ nl) [],
      Printf (''------------------'' @ nl) [],
      Printf (check_mark @ '' Enterprise deployments (established)'' @ nl) [],
      Printf (check_mark @ '' Compliance requirements (FIPS, etc.)'' @ nl) [],
      Printf (check_mark @ '' Hardware acceleration needed'' @ nl) [],
      Printf (check_mark @ '' Integration with existing IPsec infrastructure'' @ nl) [],
      Printf (check_mark @ '' Need specific cipher suites'' @ nl) [],
      Printf (check_mark @ '' Legacy system support'' @ nl) []]"

text \<open>\<open>main\<close>, on its uninitialised peers and messages, with the generator after \<open>srand\<close>.\<close>

definition wg_main ::
    "'g rand \<Rightarrow> (int \<Rightarrow> bytes option) \<Rightarrow> endian \<Rightarrow> wg_peer \<Rightarrow> wg_peer \<Rightarrow> bytes \<Rightarrow> bytes \<Rightarrow> 'g \<Rightarrow>
     (out list \<times> bytes \<times> bytes \<times> int) option" where
  "wg_main rnd malloc e alice bob init_msg resp_msg g = do {
     (alice, g) \<leftarrow> create_peer rnd alice ''Alice'' g;
     (bob, g) \<leftarrow> create_peer rnd bob ''Bob'' g;
     hex1 \<leftarrow> print_hex ''    Alice Public Key'' (public_key alice) 32;
     hex2 \<leftarrow> print_hex ''    Bob Public Key'' (public_key bob) 32;
     (out1, init_msg, g) \<leftarrow> create_handshake_initiation rnd e alice bob init_msg g;
     (out2, resp_msg, g) \<leftarrow> create_handshake_response rnd e bob init_msg resp_msg g;
     (out3, pkt1, alice, g) \<leftarrow> create_data_packet rnd malloc e alice ''Hello from Alice!'' 17 g;
     (out4, pkt2, bob, g) \<leftarrow> create_data_packet rnd malloc e bob ''Hi Alice! Message received.'' 27 g;
     Some
       ([Printf (''WireGuard Protocol Simulation'' @ nl) [],
         Printf (''=============================='' @ nl) [],
         Printf (nl @ ''[*] Created Peers:'' @ nl) [],
         Printf (''    Alice - Session Index: 0x%08X'' @ nl) [of_u (session_index alice)]] @ hex1 @
        [Printf (nl @ ''    Bob - Session Index: 0x%08X'' @ nl) [of_u (session_index bob)]] @ hex2 @
        out1 @ out2 @ out3 @ out4 @ compare_with_ipsec, init_msg, resp_msg, 0) }"

section \<open>Messages field by field\<close>

lemma generate_random_keeps:
  assumes "off + nat n \<le> length mem"
  obtains m g' where "generate_random rnd mem off n g = Some (m, g')" and "length m = length mem"
    and "\<And>k. k \<le> off \<Longrightarrow> take k m = take k mem"
proof -
  obtain bs g' where f: "fill_random rnd mem off (nat n) g = Some (take off mem @ bs @ drop (off + nat n) mem, g')"
    and "length bs = nat n"
    using fill_random_total [OF assms, where rnd = rnd and g = g] by blast
  then show thesis using assms 
    by (intro that [of "take off mem @ bs @ drop (off + nat n) mem" g']) (auto simp: generate_random_def min_def)
qed

lemma generate_keypair_total:
  assumes "length priv = 32" and "length pub = 32"
  obtains priv' pub' g' where "generate_keypair rnd priv pub g = Some (priv', pub', g')"
    and "length priv' = 32" and "length pub' = 32"
proof -
  obtain m1 g1 where "generate_random rnd priv 0 32 g = Some (m1, g1)" "length m1 = 32"
    by (rule generate_random_keeps [of 0 32 priv rnd g]) (use assms in auto)
  moreover obtain m2 g2 where "generate_random rnd pub 0 32 g1 = Some (m2, g2)" "length m2 = 32"
    by (rule generate_random_keeps [of 0 32 pub rnd g1]) (use assms in auto)
  ultimately show thesis by (intro that [of m1 m2 g2]) (auto simp: generate_keypair_def)
qed

lemma print_hex_loop_total: "i + n \<le> length bs \<Longrightarrow> \<exists>shown. print_hex_loop label bs i n = Some shown"
proof (induction n arbitrary: i)
  case (Suc n)
  then have "i + 1 + n \<le> length bs" by simp
  from Suc.IH [OF this] obtain rest where "print_hex_loop label bs (i + 1) n = Some rest" by blast
  with Suc.prems show ?case by (simp add: load8_def)
qed simp

lemma print_hex_total: "n \<le> length bs \<Longrightarrow> \<exists>shown. print_hex label bs n = Some shown"
  using print_hex_loop_total [of 0 n bs label] by (auto simp: print_hex_def)

text \<open>Stores at the end of a written prefix.\<close>

lemma write_at_prefix:
  assumes "take off m = pre" and "off + length bs \<le> length m"
  obtains m' where "write_bytes m off bs = Some m'" and "length m' = length m"
    and "take (off + length bs) m' = pre @ bs"
  using assms by (intro that [of "take off m @ bs @ drop (off + length bs) m"]) (auto simp: write_bytes_def)

lemma write_past_prefix:
  assumes "k \<le> off" and "off + length bs \<le> length m"
  obtains m' where "write_bytes m off bs = Some m'" and "length m' = length m" and "take k m' = take k m"
  using assms by (intro that [of "take off m @ bs @ drop (off + length bs) m"]) (auto simp: write_bytes_def min_def)

lemma load_prefix:
  assumes "take k m = pre @ enc Big (w :: u32) @ post" and "length pre = off" and "off + 4 \<le> k" and "k \<le> length m"
  shows "load32 e m off = Some (hton e w)"
proof -
  have "take 4 (drop off m) = take 4 (drop off (take k m))" using assms(3) by (simp add: drop_take min_def)
  also have "\<dots> = enc Big w" by (simp add: assms(1) flip: assms(2))
  finally show ?thesis using assms(3,4) by (simp add: load32_def load_obj_def hton_def)
qed

lemma handshake_initiation_fields:
  assumes "length msg = 148" and "c_string (peer_name a) = Some n1" and "c_string (peer_name b) = Some n2"
  obtains outs m g' where "create_handshake_initiation rnd e a b msg g = Some (outs, m, g')"
    and "length m = 148" and "take 8 m = [1, 0, 0, 0] @ enc Big (session_index a)"
proof -
  let ?m1 = "1 # replicate 147 0 :: bytes"
  have m1: "take 4 ?m1 = [1, 0, 0, 0]" by (simp add: numeral_3_eq_3)
  obtain m2 where m2: "write_bytes ?m1 4 (enc Big (session_index a)) = Some m2" "length m2 = 148"
      "take 8 m2 = [1, 0, 0, 0] @ enc Big (session_index a)"
    by (rule write_at_prefix [OF m1, of "enc Big (session_index a)"]) auto
  obtain kp pub g1 where k: "generate_keypair rnd (replicate 32 0) (replicate 32 0) g = Some (kp, pub, g1)" "length pub = 32"
    by (rule generate_keypair_total [of "replicate 32 0" "replicate 32 0" rnd g]) auto
  obtain m3 where m3: "write_bytes m2 8 pub = Some m3" "length m3 = 148" "take 8 m3 = take 8 m2"
    by (rule write_past_prefix [of 8 8 pub m2]) (use m2 k in auto)
  obtain m4 g4 where m4: "generate_random rnd m3 40 48 g1 = Some (m4, g4)" "length m4 = 148" "take 8 m4 = take 8 m3"
    by (rule generate_random_keeps [of 40 48 m3 rnd g1]) (use m3 in auto)
  obtain m5 g5 where m5: "generate_random rnd m4 88 28 g4 = Some (m5, g5)" "length m5 = 148" "take 8 m5 = take 8 m4"
    by (rule generate_random_keeps [of 88 28 m4 rnd g4]) (use m4 in auto)
  obtain m6 g6 where m6: "generate_random rnd m5 116 16 g5 = Some (m6, g6)" "length m6 = 148" "take 8 m6 = take 8 m5"
    by (rule generate_random_keeps [of 116 16 m5 rnd g5]) (use m5 in auto)
  obtain m7 g7 where m7: "generate_random rnd m6 132 16 g6 = Some (m7, g7)" "length m7 = 148" "take 8 m7 = take 8 m6"
    by (rule generate_random_keeps [of 132 16 m6 rnd g6]) (use m6 in auto)
  have t: "take 8 m7 = [1, 0, 0, 0] @ enc Big (session_index a) @ []"
    using m2(3) m3(3) m4(3) m5(3) m6(3) m7(3) by simp
  have s: "load32 e m7 4 = Some (hton e (session_index a))"
    by (rule load_prefix [OF t]) (use m7(2) in auto)
  obtain hex where h: "print_hex ''Ephemeral Public Key'' (drop 8 m7) 32 = Some hex"
    using print_hex_total [of 32 "drop 8 m7"] m7(2) by auto
  have ne: "m7 \<noteq> []" using m7(2) by auto
  show thesis
    by (rule that [OF _ m7(2)])
       (use assms m2 k m3 m4 m5 m6 m7 s h ne t in
         \<open>auto simp: create_handshake_initiation_def memset_def store8_def store_word_def
            enc_hton [where n = 4] write_bytes_def [of msg] write_bytes_def [of "replicate 148 0"] load8_def\<close>)
qed

lemma handshake_response_fields:
  assumes "length msg = 92" and "c_string (peer_name b) = Some n" and "load32 e init_msg 4 = Some (hton e idx)"
  obtains outs m g' where "create_handshake_response rnd e b init_msg msg g = Some (outs, m, g')"
    and "length m = 92" and "take 12 m = [2, 0, 0, 0] @ enc Big (session_index b) @ enc Big idx"
proof -
  let ?m1 = "2 # replicate 91 0 :: bytes"
  have m1: "take 4 ?m1 = [2, 0, 0, 0]" by (simp add: numeral_3_eq_3)
  obtain m2 where m2: "write_bytes ?m1 4 (enc Big (session_index b)) = Some m2" "length m2 = 92"
      "take 8 m2 = [2, 0, 0, 0] @ enc Big (session_index b)"
    by (rule write_at_prefix [OF m1, of "enc Big (session_index b)"]) auto
  obtain m3 where m3: "write_bytes m2 8 (enc Big idx) = Some m3" "length m3 = 92"
      "take 12 m3 = ([2, 0, 0, 0] @ enc Big (session_index b)) @ enc Big idx"
    by (rule write_at_prefix [OF m2(3), of "enc Big idx"]) (auto simp: m2(2))
  obtain kp pub g1 where k: "generate_keypair rnd (replicate 32 0) (replicate 32 0) g = Some (kp, pub, g1)" "length pub = 32"
    by (rule generate_keypair_total [of "replicate 32 0" "replicate 32 0" rnd g]) auto
  obtain m4 where m4: "write_bytes m3 12 pub = Some m4" "length m4 = 92" "take 12 m4 = take 12 m3"
    by (rule write_past_prefix [of 12 12 pub m3]) (use m3 k in auto)
  obtain m5 g5 where m5: "generate_random rnd m4 44 16 g1 = Some (m5, g5)" "length m5 = 92" "take 12 m5 = take 12 m4"
    by (rule generate_random_keeps [of 44 16 m4 rnd g1]) (use m4 in auto)
  obtain m6 g6 where m6: "generate_random rnd m5 60 16 g5 = Some (m6, g6)" "length m6 = 92" "take 12 m6 = take 12 m5"
    by (rule generate_random_keeps [of 60 16 m5 rnd g5]) (use m5 in auto)
  obtain m7 g7 where m7: "generate_random rnd m6 76 16 g6 = Some (m7, g7)" "length m7 = 92" "take 12 m7 = take 12 m6"
    by (rule generate_random_keeps [of 76 16 m6 rnd g6]) (use m6 in auto)
  have t: "take 12 m7 = [2, 0, 0, 0] @ enc Big (session_index b) @ enc Big idx"
    using m3(3) m4(3) m5(3) m6(3) m7(3) by simp
  have s: "load32 e m7 4 = Some (hton e (session_index b))"
    by (rule load_prefix [OF t]) (use m7(2) in auto)
  have "take 12 m7 = ([2, 0, 0, 0] @ enc Big (session_index b)) @ enc Big idx @ []" using t by simp
  then have r: "load32 e m7 8 = Some (hton e idx)"
    by (rule load_prefix) (use m7(2) in auto)
  obtain hex where h: "print_hex ''Ephemeral Public Key'' (drop 12 m7) 32 = Some hex"
    using print_hex_total [of 32 "drop 12 m7"] m7(2) by auto
  have ne: "m7 \<noteq> []" using m7(2) by auto
  have idx: "enc e (hton e idx) = enc Big idx" "enc e (hton e (session_index b)) = enc Big (session_index b)"
    by (simp_all add: enc_hton [where n = 4])
  show thesis
    by (rule that [OF _ m7(2)])
       (use assms m2 k m3 m4 m5 m6 m7 s r h ne t idx in
         \<open>auto simp: create_handshake_response_def memset_def store8_def store_word_def
            write_bytes_def [of msg] write_bytes_def [of "replicate 92 0"] load8_def\<close>)
qed

lemma data_packet_size_value: "0 \<le> n \<Longrightarrow> n < 2147483616 \<Longrightarrow> data_packet_size n = n + 32"
  unfolding data_packet_size_def by (simp only: wg_layouts sint_sbintrunc') (simp add: signed_take_bit_int_eq_self)

text \<open>The documented behaviour of \<open>malloc\<close>: \<open>NULL\<close> or a block of the size asked for.\<close>

definition is_malloc :: "(int \<Rightarrow> bytes option) \<Rightarrow> bool" where
  "is_malloc malloc \<longleftrightarrow> (\<forall>n m. malloc n = Some m \<longrightarrow> int (length m) = n)"

lemma data_packet_fields:
  assumes "is_malloc malloc" and "malloc (n + 32) = Some blk" and "0 \<le> n" "n < 2147483616"
    and "c_string (peer_name p) = Some nm"
  obtains outs m g' where "create_data_packet rnd malloc e p text n g = Some (outs, m, p\<lparr>tx_counter := tx_counter p + 1\<rparr>, g')"
    and "int (length m) = n + 32" and "take 16 m = [4, 0, 0, 0] @ enc Big (session_index p) @ enc Big (tx_counter p)"
    and "printed (''Total Overhead: 16 bytes (header + auth tag)'' @ nl) outs = Some []"
    and "printed (nl @ ''Total Packet Size: %d bytes'' @ nl) outs = Some [CInt (n + 32)]"
proof -
  have l: "int (length blk) = n + 32" using assms(1,2) by (simp add: is_malloc_def)
  then have l4: "4 \<le> length blk" using assms(3) by linarith
  let ?m1 = "4 # drop 1 blk"
  have b1: "write_bytes blk 0 [4] = Some ?m1" using l assms(3) by (simp add: write_bytes_def)
  have b2: "write_bytes ?m1 1 [0, 0, 0] = Some (4 # [0, 0, 0] @ drop 4 blk)"
    using l4 by (simp add: write_bytes_def eval_nat_numeral)
  let ?m2 = "4 # [0, 0, 0] @ drop 4 blk"
  have l2: "int (length ?m2) = n + 32" using l assms(3) by simp
  have p2: "take 4 ?m2 = [4, 0, 0, 0]" by simp
  obtain m3 where m3: "write_bytes ?m2 4 (enc Big (session_index p)) = Some m3" "length m3 = length ?m2"
      "take 8 m3 = [4, 0, 0, 0] @ enc Big (session_index p)"
    by (rule write_at_prefix [OF p2, of "enc Big (session_index p)"]) (use l2 assms(3) in auto)
  obtain m4 where m4: "write_bytes m3 8 (enc Big (tx_counter p)) = Some m4" "length m4 = length m3"
      "take 16 m4 = ([4, 0, 0, 0] @ enc Big (session_index p)) @ enc Big (tx_counter p)"
    by (rule write_at_prefix [OF m3(3), of "enc Big (tx_counter p)"]) (use l2 m3(2) assms(3) in auto)
  obtain m5 g5 where m5: "generate_random rnd m4 16 (n + 16) g = Some (m5, g5)" "length m5 = length m4"
      "take 16 m5 = take 16 m4"
    by (rule generate_random_keeps [of 16 "n + 16" m4 rnd g]) (use l2 m3(2) m4(2) assms(3) in auto)
  have l5: "int (length m5) = n + 32" using l2 m3(2) m4(2) m5(2) by simp
  have t: "take 16 m5 = [4, 0, 0, 0] @ enc Big (session_index p) @ enc Big (tx_counter p)"
    using m4(3) m5(3) by simp
  have s: "load32 e m5 4 = Some (hton e (session_index p))"
    by (rule load_prefix [OF t]) (use l5 assms(3) in auto)
  have c: "\<exists>w. load64 e m5 8 = Some w" using l5 assms(3) by (simp add: load64_def load_obj_def)
  have ne: "m5 \<noteq> []" using l5 assms(3) by auto
  have sz: "data_packet_size n = n + 32" using assms(3,4) by (rule data_packet_size_value)
  have "\<exists>outs. create_data_packet rnd malloc e p text n g = Some (outs, m5, p\<lparr>tx_counter := tx_counter p + 1\<rparr>, g5) \<and>
      printed (''Total Overhead: 16 bytes (header + auth tag)'' @ nl) outs = Some [] \<and>
      printed (nl @ ''Total Packet Size: %d bytes'' @ nl) outs = Some [CInt (n + 32)]"
    using assms b1 b2 m3 m4 m5 s c ne sz
    by (auto simp: create_data_packet_def memset_def store8_def store_word_def Let_def numeral_3_eq_3
        enc_hton [where n = 4] enc_hton [where n = 8] load8_def)
  then show thesis using that l5 t by blast
qed

text \<open>The peers: a name of at most 30 characters is terminated by the padding of \<open>strncpy\<close>; of a
  longer one the first 31 are copied, and the string ends by the byte that was there before.\<close>

definition fresh_peer :: "wg_peer \<Rightarrow> bool" where
  "fresh_peer p \<longleftrightarrow> length (peer_name p) = 32 \<and> length (public_key p) = 32 \<and> length (private_key p) = 32"

lemma create_peer_fields:
  assumes "fresh_peer p"
  obtains p' g' where "create_peer rnd p text g = Some (p', g')" and "fresh_peer p'"
    and "tx_counter p' = 0" and "rx_counter p' = 0"
    and "peer_name p' = take 31 (bytes_of text) @ replicate (31 - length text) 0 @ [peer_name p ! 31]"
proof -
  have l: "length (peer_name p) = 32" using assms by (simp add: fresh_peer_def)
  then have "drop 31 (peer_name p) = [peer_name p ! 31]" by (simp add: Cons_nth_drop_Suc [symmetric])
  then have n: "strncpy (peer_name p) (bytes_of text) 31 =
      Some (take 31 (bytes_of text) @ replicate (31 - length text) 0 @ [peer_name p ! 31])"
    using l by (simp add: strncpy_def write_bytes_def min_def)
  obtain a b g1 where k: "generate_keypair rnd (private_key p) (public_key p) g = Some (a, b, g1)" "length a = 32" "length b = 32"
    by (rule generate_keypair_total [of "private_key p" "public_key p" rnd g]) (use assms in \<open>auto simp: fresh_peer_def\<close>)
  obtain r g2 where "rnd g1 = (r, g2)" by fastforce
  then show thesis
    using n k by (intro that) (auto simp: create_peer_def fresh_peer_def)
qed

lemma peer_name_string:
  assumes "CHR 0x00 \<notin> set text" and "length text \<le> 30"
  shows "c_string (take 31 (bytes_of text) @ replicate (31 - length text) 0 @ [b]) = Some (bytes_of text)"
proof -
  obtain m where "31 - length text = Suc m" using assms(2) by (cases "31 - length text") auto
  then show ?thesis using assms by (simp add: c_string_append_zero zero_not_in_bytes_of)
qed

lemma create_named_peer:
  assumes "fresh_peer p" and "CHR 0x00 \<notin> set name" and "length name \<le> 30"
  obtains p' g' where "create_peer rnd p name g = Some (p', g')" and "fresh_peer p'"
    and "c_string (peer_name p') = Some (bytes_of name)"
  by (rule create_peer_fields [OF assms(1), of rnd name g])
     (use that peer_name_string [OF assms(2,3)] in metis)

section \<open>A sender's packets\<close>

fun send_packets ::
    "'g rand \<Rightarrow> (int \<Rightarrow> bytes option) \<Rightarrow> endian \<Rightarrow> wg_peer \<Rightarrow> (string \<times> int) list \<Rightarrow> 'g \<Rightarrow>
     (bytes list \<times> wg_peer \<times> 'g) option" where
  "send_packets rnd malloc e p [] g = Some ([], p, g)"
| "send_packets rnd malloc e p ((text, n) # rest) g = do {
     (outs, pkt, p, g) \<leftarrow> create_data_packet rnd malloc e p text n g;
     (pkts, p, g) \<leftarrow> send_packets rnd malloc e p rest g;
     Some (pkt # pkts, p, g) }"

definition sendable :: "(int \<Rightarrow> bytes option) \<Rightarrow> string \<times> int \<Rightarrow> bool" where
  "sendable malloc = (\<lambda>(text, n). 0 \<le> n \<and> n < 2147483616 \<and> malloc (n + 32) \<noteq> None)"

definition data_header :: "u32 \<Rightarrow> u64 \<Rightarrow> bytes" where
  "data_header idx counter = [4, 0, 0, 0] @ enc Big idx @ enc Big counter"

lemma send_packets_headers:
  assumes "is_malloc malloc" and "c_string (peer_name p) = Some nm" and "list_all (sendable malloc) msgs"
  shows "\<exists>pkts p' g'. send_packets rnd malloc e p msgs g = Some (pkts, p', g') \<and>
    map (\<lambda>pkt. int (length pkt)) pkts = map (\<lambda>(text, n). n + 32) msgs \<and>
    map (take 16) pkts = map (\<lambda>i. data_header (session_index p) (tx_counter p + of_nat i)) [0..<length msgs]"
  using assms(2,3)
proof (induction msgs arbitrary: p g)
  case (Cons msg msgs)
  obtain body n where msg: "msg = (body, n)" by fastforce
  with Cons.prems obtain blk where n: "0 \<le> n" "n < 2147483616" and blk: "malloc (n + 32) = Some blk"
    by (auto simp: sendable_def)
  obtain outs pkt g1 where d: "create_data_packet rnd malloc e p body n g = Some (outs, pkt, p\<lparr>tx_counter := tx_counter p + 1\<rparr>, g1)"
    and l: "int (length pkt) = n + 32" and t: "take 16 pkt = [4, 0, 0, 0] @ enc Big (session_index p) @ enc Big (tx_counter p)"
    by (rule data_packet_fields [OF assms(1) blk n Cons.prems(1), of rnd e body g]) blast
  let ?p = "p\<lparr>tx_counter := tx_counter p + 1\<rparr>"
  obtain pkts p' g' where s: "send_packets rnd malloc e ?p msgs g1 = Some (pkts, p', g')"
    and lens: "map (\<lambda>pkt. int (length pkt)) pkts = map (\<lambda>(text, n). n + 32) msgs"
    and hs: "map (take 16) pkts = map (\<lambda>i. data_header (session_index ?p) (tx_counter ?p + of_nat i)) [0..<length msgs]"
    using Cons.IH [of ?p g1] Cons.prems by auto
  have "[0..<length (msg # msgs)] = 0 # map Suc [0..<length msgs]"
    by (simp add: upt_conv_Cons map_Suc_upt del: upt_Suc)
  then show ?case
    using d l t s lens hs by (simp add: msg data_header_def comp_def add.assoc del: upt_Suc)
qed simp

lemma data_header_inject: "data_header idx c = data_header idx c' \<Longrightarrow> c = c'"
proof -
  assume "data_header idx c = data_header idx c'"
  then have "(dec Big (enc Big c) :: u64) = dec Big (enc Big c')" by (simp add: data_header_def)
  then show "c = c'" by (simp add: dec_enc [where n = 8])
qed

lemma data_headers_distinct:
  assumes "n \<le> 2 ^ 64"
  shows "distinct (map (\<lambda>i. data_header idx (c + of_nat i)) [0..<n])"
proof -
  have "i = j" if "i < n" "j < n" "data_header idx (c + of_nat i) = data_header idx (c + of_nat j)" for i j
  proof -
    have "(of_nat i :: u64) = of_nat j" using data_header_inject [OF that(3)] by simp
    then have "unat (of_nat i :: u64) = unat (of_nat j :: u64)" by simp
    moreover have "i < 2 ^ 64" "j < 2 ^ 64" using that(1,2) assms by linarith+
    ultimately show ?thesis by (simp add: unat_of_nat take_bit_nat_eq_self)
  qed
  then show ?thesis by (auto simp: distinct_map inj_on_def)
qed

lemma format_indent: "c_format (nl @ ''%*s'') [CInt (int k), CStr []] = nl @ replicate k CHR '' ''"
  by (simp add: c_format_def fmt_conv_def pad_left_def)

lemma print_hex_loop_text:
  "i + n \<le> length bs \<Longrightarrow> \<exists>shown. print_hex_loop label bs i n = Some shown \<and>
     hex_bytes (concat (map render shown) @ rest) = take n (drop i bs) @ hex_bytes rest"
proof (induction n arbitrary: i)
  case (Suc n)
  then obtain shown where s: "print_hex_loop label bs (i + 1) n = Some shown"
    and h: "hex_bytes (concat (map render shown) @ rest) = take n (drop (i + 1) bs) @ hex_bytes rest"
    by (metis Suc_eq_plus1 add_Suc_shift)
  let ?line = "c_format (nl @ ''%*s'') [CInt (int (length label) + 2), CStr []]"
  have l: "?line = nl @ replicate (length label + 2) CHR '' ''"
    using format_indent [of "length label + 2"] by (simp only: of_nat_add of_nat_numeral)
  have "hex_bytes (?line @ concat (map render shown) @ rest) = hex_bytes (concat (map render shown) @ rest)"
    using hex_bytes_blanks [of "?line" "concat (map render shown) @ rest"]
    unfolding l by (simp add: blank_def list_all_iff)
  moreover have "take (Suc n) (drop i bs) = bs ! i # take n (drop (i + 1) bs)"
    using Suc.prems by (simp add: Cons_nth_drop_Suc [symmetric])
  ultimately show ?case
    using s h Suc.prems by (auto simp: load8_def format_hex2)
qed simp

section \<open>Properties\<close>

text \<open>The two handshake messages. For every generator, whatever the message buffers held and
  on both kinds of host, the initiation has 148 bytes and starts with type 1, three zeros and
  the initiator's index in network order; the response to it has 92 bytes and starts with type
  2, three zeros, the responder's index and, as receiver, the initiator's index.\<close>

lemma handshake_indices:
  assumes "length buf1 = 148" and "length buf2 = 92"
    and "c_string (peer_name a) = Some n1" and "c_string (peer_name b) = Some n2"
  shows "\<exists>o1 m1 g1 o2 m2 g2.
    create_handshake_initiation rnd e a b buf1 g = Some (o1, m1, g1) \<and>
    create_handshake_response rnd e b m1 buf2 g1 = Some (o2, m2, g2) \<and>
    length m1 = 148 \<and> take 8 m1 = [1, 0, 0, 0] @ enc Big (session_index a) \<and>
    length m2 = 92 \<and> take 12 m2 = [2, 0, 0, 0] @ enc Big (session_index b) @ enc Big (session_index a)"
proof -
  obtain o1 m1 g1 where i: "create_handshake_initiation rnd e a b buf1 g = Some (o1, m1, g1)" "length m1 = 148"
      "take 8 m1 = [1, 0, 0, 0] @ enc Big (session_index a)"
    by (rule handshake_initiation_fields [OF assms(1,3,4), of rnd e g]) blast
  then have "take 8 m1 = [1, 0, 0, 0] @ enc Big (session_index a) @ []" by simp
  then have s: "load32 e m1 4 = Some (hton e (session_index a))"
    by (rule load_prefix) (use i(2) in auto)
  obtain o2 m2 g2 where "create_handshake_response rnd e b m1 buf2 g1 = Some (o2, m2, g2)" "length m2 = 92"
      "take 12 m2 = [2, 0, 0, 0] @ enc Big (session_index b) @ enc Big (session_index a)"
    by (rule handshake_response_fields [OF assms(2,4) s, of rnd g1]) blast
  with i show ?thesis by blast
qed

text \<open>No nonce is used twice. When a peer sends up to $2^{64}$ data packets and \<open>malloc\<close>
  succeeds, the packets carry the payload and 32 more bytes, and their 16 header bytes are the
  type 4, the peer's index and counters that go up by one from its \<open>tx_counter\<close>, modulo $2^{64}$,
  all distinct.\<close>

lemma data_packets_use_fresh_counters:
  assumes "is_malloc malloc" and "c_string (peer_name p) = Some nm"
    and "list_all (sendable malloc) msgs" and "length msgs \<le> 2 ^ 64"
  shows "\<exists>pkts p' g'. send_packets rnd malloc e p msgs g = Some (pkts, p', g') \<and>
    map (\<lambda>pkt. int (length pkt)) pkts = map (\<lambda>(text, n). n + 32) msgs \<and>
    map (take 16) pkts = map (\<lambda>i. data_header (session_index p) (tx_counter p + of_nat i)) [0..<length msgs] \<and>
    distinct (map (take 16) pkts)"
proof -
  from send_packets_headers [OF assms(1-3), where rnd = rnd and e = e and g = g]
  obtain pkts p' g' where s: "send_packets rnd malloc e p msgs g = Some (pkts, p', g')"
      "map (\<lambda>pkt. int (length pkt)) pkts = map (\<lambda>(text, n). n + 32) msgs"
    and h: "map (take 16) pkts = map (\<lambda>i. data_header (session_index p) (tx_counter p + of_nat i)) [0..<length msgs]"
    by blast
  have "distinct (map (take 16) pkts)" unfolding h using assms(4) by (rule data_headers_distinct)
  with s h show ?thesis by blast
qed

theorem handshake_indices_witness:
  "\<exists>o1 m1 g1 o2 m2 g2.
    create_handshake_initiation (\<lambda>g. (g, g + 1)) Little
      \<lparr>peer_name = [65, 0], public_key = [], private_key = [], session_index = 7, tx_counter = 0, rx_counter = 0\<rparr>
      \<lparr>peer_name = [66, 0], public_key = [], private_key = [], session_index = 9, tx_counter = 0, rx_counter = 0\<rparr>
      (replicate 148 0xAA) (0 :: u32) = Some (o1, m1, g1) \<and>
    create_handshake_response (\<lambda>g. (g, g + 1)) Little
      \<lparr>peer_name = [66, 0], public_key = [], private_key = [], session_index = 9, tx_counter = 0, rx_counter = 0\<rparr>
      m1 (replicate 92 0xAA) g1 = Some (o2, m2, g2) \<and>
    take 12 m2 = [2, 0, 0, 0] @ enc Big (9 :: u32) @ enc Big (7 :: u32)"
  using handshake_indices [of "replicate 148 0xAA" "replicate 92 0xAA"
      "\<lparr>peer_name = [65, 0], public_key = [], private_key = [], session_index = 7, tx_counter = 0, rx_counter = 0\<rparr>" "[65]"
      "\<lparr>peer_name = [66, 0], public_key = [], private_key = [], session_index = 9, tx_counter = 0, rx_counter = 0\<rparr>" "[66]"
      "\<lambda>g :: u32. (g, g + 1)" Little 0]
  by (auto simp: c_string_def)

theorem data_packets_use_fresh_counters_witness:
  "\<exists>pkts p' g'. send_packets (\<lambda>g. (g, g + 1)) (\<lambda>n. if n < 0 then None else Some (replicate (nat n) 0)) Big
      \<lparr>peer_name = [65, 0], public_key = [], private_key = [], session_index = 7, tx_counter = 5, rx_counter = 0\<rparr>
      [(''hi'', 2), (''there'', 5)] (0 :: u32) = Some (pkts, p', g') \<and>
    map (take 16) pkts = [data_header 7 5, data_header 7 6]"
proof -
  let ?malloc = "\<lambda>n. if n < 0 then None else Some (replicate (nat n) (0 :: u8))"
  let ?p = "\<lparr>peer_name = [65, 0], public_key = [], private_key = [], session_index = 7, tx_counter = 5, rx_counter = 0\<rparr>"
  have m: "is_malloc ?malloc" by (auto simp: is_malloc_def)
  have p: "c_string (peer_name ?p) = Some [65]" by (simp add: c_string_def)
  have s: "list_all (sendable ?malloc) [(''hi'', 2), (''there'', 5)]" by (simp add: sendable_def)
  show ?thesis
    using data_packets_use_fresh_counters [OF m p s, where rnd = "\<lambda>g :: u32. (g, g + 1)" and e = Big and g = 0]
    by (auto simp: upt_rec)
qed

text \<open>The name of a peer. For a name of at most 30 characters the field holds it as a string;
  of a longer one the field holds the first 31 characters, terminated only when the byte that
  was there before \<open>create_peer\<close> happens to be zero: \<open>strncpy\<close> is given one byte less than the
  field and nothing terminates it. The counters start at zero.\<close>

lemma create_peer_name:
  assumes "fresh_peer p" and "CHR 0x00 \<notin> set name"
  shows "\<exists>p' g'. create_peer rnd p name g = Some (p', g') \<and> fresh_peer p' \<and> tx_counter p' = 0 \<and> rx_counter p' = 0 \<and>
    c_string (peer_name p') =
      (if length name \<le> 30 \<or> peer_name p ! 31 = 0 then Some (bytes_of (take 31 name)) else None)"
proof -
  obtain p' g' where c: "create_peer rnd p name g = Some (p', g')" "fresh_peer p'" "tx_counter p' = 0" "rx_counter p' = 0"
    and n: "peer_name p' = take 31 (bytes_of name) @ replicate (31 - length name) 0 @ [peer_name p ! 31]"
    by (rule create_peer_fields [OF assms(1), of rnd name g])
  have z: "0 \<notin> set (bytes_of (take 31 name))"
    using assms(2) by (auto simp: zero_not_in_bytes_of dest: in_set_takeD)
  have "c_string (peer_name p') =
      (if length name \<le> 30 \<or> peer_name p ! 31 = 0 then Some (bytes_of (take 31 name)) else None)"
  proof (cases "length name \<le> 30")
    case True
    then show ?thesis using peer_name_string [OF assms(2) True] by (simp add: n)
  next
    case False
    then have "peer_name p' = bytes_of (take 31 name) @ [peer_name p ! 31]"
      by (simp add: n bytes_of_def take_map)
    then show ?thesis using False z c_string_append_zero [OF z, of "[]"]
      by (cases "peer_name p ! 31 = 0") (simp_all add: c_string_def [of "_ @ [peer_name p ! 31]"])
  qed
  with c show ?thesis by blast
qed

theorem create_peer_name_witness:
  "\<exists>p' g'. create_peer (\<lambda>g. (g, g + 1))
      \<lparr>peer_name = replicate 32 0xFF, public_key = replicate 32 0, private_key = replicate 32 0,
       session_index = 0, tx_counter = 9, rx_counter = 9\<rparr> ''Alice'' (0 :: u32) = Some (p', g') \<and>
    c_string (peer_name p') = Some (bytes_of ''Alice'') \<and> tx_counter p' = 0"
  using create_peer_name [of "\<lparr>peer_name = replicate 32 0xFF, public_key = replicate 32 0, private_key = replicate 32 0,
       session_index = 0, tx_counter = 9, rx_counter = 9\<rparr>" "''Alice''" "\<lambda>g :: u32. (g, g + 1)" 0]
  by (auto simp: fresh_peer_def)

text \<open>The printed overhead: the packet is 32 bytes longer than its payload, and the output says 16.\<close>

lemma data_packet_overhead:
  assumes "is_malloc malloc" and "malloc (n + 32) = Some blk" and "0 \<le> n" "n < 2147483616"
    and "c_string (peer_name p) = Some nm"
  shows "\<exists>outs pkt p' g'. create_data_packet rnd malloc e p body n g = Some (outs, pkt, p', g') \<and>
    printed (''Total Overhead: 16 bytes (header + auth tag)'' @ nl) outs = Some [] \<and>
    int (length pkt) - n = 32"
  by (rule data_packet_fields [OF assms, of rnd e body g]) auto

lemma data_packet_null: "malloc (data_packet_size n) = None \<Longrightarrow> create_data_packet rnd malloc e p body n g = None"
  by (auto simp: create_data_packet_def Let_def split: bind_split)

text \<open>C37: the demonstration. For every generator, on both kinds of host and whatever the
  uninitialised peers and messages held, \<open>main\<close> runs to its end and returns 0, with no access
  outside an object, exactly when both calls of \<open>malloc\<close> succeed: their result is used without
  a test for \<open>NULL\<close>.\<close>

theorem wg_main_runs_iff_malloc:
  assumes "is_malloc malloc" and "fresh_peer p" "fresh_peer q" and "length buf1 = 148" "length buf2 = 92"
  shows "(\<exists>outs m1 m2. wg_main rnd malloc e p q buf1 buf2 g = Some (outs, m1, m2, 0)) \<longleftrightarrow>
     malloc 49 \<noteq> None \<and> malloc 59 \<noteq> None"
proof -
  obtain a g1 where a: "create_peer rnd p ''Alice'' g = Some (a, g1)" "fresh_peer a" and an: "c_string (peer_name a) = Some (bytes_of ''Alice'')"
    by (rule create_named_peer [OF assms(2), of "''Alice''" rnd g]) auto
  obtain b g2 where b: "create_peer rnd q ''Bob'' g1 = Some (b, g2)" "fresh_peer b" and bn: "c_string (peer_name b) = Some (bytes_of ''Bob'')"
    by (rule create_named_peer [OF assms(3), of "''Bob''" rnd g1]) auto
  obtain h1 where h1: "print_hex ''    Alice Public Key'' (public_key a) 32 = Some h1"
    using print_hex_total [of 32 "public_key a"] a(2) by (auto simp: fresh_peer_def)
  obtain h2 where h2: "print_hex ''    Bob Public Key'' (public_key b) 32 = Some h2"
    using print_hex_total [of 32 "public_key b"] b(2) by (auto simp: fresh_peer_def)
  obtain o1 m1 g3 where i: "create_handshake_initiation rnd e a b buf1 g2 = Some (o1, m1, g3)" "length m1 = 148"
      "take 8 m1 = [1, 0, 0, 0] @ enc Big (session_index a)"
    by (rule handshake_initiation_fields [OF assms(4) an bn, of rnd e g2]) blast
  then have "take 8 m1 = [1, 0, 0, 0] @ enc Big (session_index a) @ []" by simp
  then have s: "load32 e m1 4 = Some (hton e (session_index a))"
    by (rule load_prefix) (use i(2) in auto)
  obtain o2 m2 g4 where r: "create_handshake_response rnd e b m1 buf2 g3 = Some (o2, m2, g4)"
    by (rule handshake_response_fields [OF assms(5) bn s, of rnd g3]) blast
  note steps = a b h1 h2 i r
  have z: "data_packet_size 17 = 49" "data_packet_size 27 = 59" by (simp_all add: data_packet_size_value)
  show ?thesis
  proof (cases "malloc 49")
    case None
    then have "create_data_packet rnd malloc e a ''Hello from Alice!'' 17 g4 = None"
      by (intro data_packet_null) (simp add: z)
    then show ?thesis using None steps by (simp add: wg_main_def)
  next
    case m49: (Some blk1)
    then obtain o3 k1 a' g5 where d1: "create_data_packet rnd malloc e a ''Hello from Alice!'' 17 g4 = Some (o3, k1, a', g5)"
      by (rule_tac data_packet_fields [OF assms(1) _ _ _ an, of 17 blk1 rnd e "''Hello from Alice!''" g4]) auto
    show ?thesis
    proof (cases "malloc 59")
      case None
      then have "create_data_packet rnd malloc e b ''Hi Alice! Message received.'' 27 g5 = None"
        by (intro data_packet_null) (simp add: z)
      then show ?thesis using None m49 steps d1 by (simp add: wg_main_def)
    next
      case (Some blk2)
      then obtain o4 k2 b' g6 where "create_data_packet rnd malloc e b ''Hi Alice! Message received.'' 27 g5 = Some (o4, k2, b', g6)"
        by (rule_tac data_packet_fields [OF assms(1) _ _ _ bn, of 27 blk2 rnd e "''Hi Alice! Message received.''" g5]) auto
      then show ?thesis using Some m49 steps d1 by (simp add: wg_main_def)
    qed
  qed
qed

theorem wg_main_runs_iff_malloc_witness:
  "\<exists>outs m1 m2. wg_main (\<lambda>g. (g, g + 1)) (\<lambda>n. if n < 0 then None else Some (replicate (nat n) 0)) Little
      \<lparr>peer_name = replicate 32 1, public_key = replicate 32 0, private_key = replicate 32 0,
       session_index = 0, tx_counter = 0, rx_counter = 0\<rparr>
      \<lparr>peer_name = replicate 32 1, public_key = replicate 32 0, private_key = replicate 32 0,
       session_index = 0, tx_counter = 0, rx_counter = 0\<rparr>
      (replicate 148 0) (replicate 92 0) (0 :: u32) = Some (outs, m1, m2, 0)"
proof -
  let ?malloc = "\<lambda>n. if n < 0 then None else Some (replicate (nat n) (0 :: u8))"
  let ?p = "\<lparr>peer_name = replicate 32 1, public_key = replicate 32 0, private_key = replicate 32 0,
       session_index = 0, tx_counter = 0, rx_counter = 0\<rparr>"
  have m: "is_malloc ?malloc" by (auto simp: is_malloc_def)
  have p: "fresh_peer ?p" by (simp add: fresh_peer_def)
  show ?thesis
    using wg_main_runs_iff_malloc [OF m p p, of "replicate 148 0" "replicate 92 0" "\<lambda>g :: u32. (g, g + 1)" Little 0]
    by simp
qed

text \<open>C26: the hex dump reads back. For every label and every data of at least \<open>len\<close> bytes,
  \<open>print_hex\<close> stays inside the data, and its text is the label, a colon, a blank and digits from
  which a reader that skips blanks and line ends gets exactly the first \<open>len\<close> bytes.\<close>

theorem print_hex_reads_back:
  assumes "len \<le> length bs"
  shows "\<exists>shown. print_hex label bs len = Some shown \<and>
    take (length label + 2) (concat (map render shown)) = label @ '': '' \<and>
    hex_bytes (drop (length label + 2) (concat (map render shown))) = take len bs"
proof -
  obtain shown where s: "print_hex_loop label bs 0 len = Some shown"
    and h: "hex_bytes (concat (map render shown) @ nl) = take len bs"
    using print_hex_loop_text [of 0 len bs label nl] assms by auto
  have l: "render (Printf ''%s: '' [CStr label]) = label @ '': ''"
    by (simp add: c_format_def fmt_conv_def pad_left_def)
  have "render (Printf nl []) = nl" by (simp add: c_format_def)
  with l have "concat (map render ([Printf ''%s: '' [CStr label]] @ shown @ [Printf nl []])) =
      (label @ '': '') @ concat (map render shown) @ nl"
    by (simp del: render.simps)
  moreover have "length (label @ '': '') = length label + 2" by simp
  ultimately show ?thesis using s h by (auto simp: print_hex_def simp del: render.simps)
qed

theorem print_hex_reads_back_witness:
  "\<exists>shown. print_hex ''Key'' (replicate 40 0xA5) 33 = Some shown \<and>
    hex_bytes (drop (length ''Key'' + 2) (concat (map render shown))) = replicate 33 0xA5"
  using print_hex_reads_back [of 33 "replicate 40 0xA5" "''Key''"] by (auto simp: min_def)

end
