(* ===== verification/WgMachine.thy ===== *)
theory WgMachine
  imports WireGuard Simulation
begin

text \<open>
  The WireGuard simulation as a whole (11_wireguard_concepts.c): any number of peers that open
  handshakes, answer them and send data packets in any order, against an abstract machine of
  session indices and counters. What a message says is read from its bytes alone, as a receiver
  on the network would read it.
\<close>

section \<open>The operations\<close>

datatype (discs_sels) wg_op = Initiate nat nat | Respond nat | Send nat string int

record 'g wg_net =
  peers :: "wg_peer list"
  init_msg :: bytes
  resp_msg :: bytes
  gen :: 'g

definition wg_step ::
    "'g rand \<Rightarrow> (int \<Rightarrow> bytes option) \<Rightarrow> endian \<Rightarrow> 'g wg_net \<Rightarrow> wg_op \<Rightarrow> (bytes \<times> 'g wg_net) option" where
  "wg_step rnd malloc e s op =
     (case op of
        Initiate i j \<Rightarrow> do {
          a \<leftarrow> nth_opt (peers s) i;
          b \<leftarrow> nth_opt (peers s) j;
          (outs, m, g) \<leftarrow> create_handshake_initiation rnd e a b (init_msg s) (gen s);
          Some (m, s\<lparr>init_msg := m, gen := g\<rparr>) }
      | Respond j \<Rightarrow> do {
          b \<leftarrow> nth_opt (peers s) j;
          (outs, m, g) \<leftarrow> create_handshake_response rnd e b (init_msg s) (resp_msg s) (gen s);
          Some (m, s\<lparr>resp_msg := m, gen := g\<rparr>) }
      | Send i body n \<Rightarrow> do {
          p \<leftarrow> nth_opt (peers s) i;
          (outs, pkt, p, g) \<leftarrow> create_data_packet rnd malloc e p body n (gen s);
          Some (pkt, s\<lparr>peers := (peers s)[i := p], gen := g\<rparr>) })"

definition wg_allowed :: "nat \<Rightarrow> (int \<Rightarrow> bytes option) \<Rightarrow> wg_op \<Rightarrow> bool" where
  "wg_allowed k malloc op =
     (case op of
        Initiate i j \<Rightarrow> i < k \<and> j < k
      | Respond j \<Rightarrow> j < k
      | Send i body n \<Rightarrow> i < k \<and> sendable malloc (body, n))"

definition wg_wf :: "nat \<Rightarrow> 'g wg_net \<Rightarrow> bool" where
  "wg_wf k s \<longleftrightarrow> length (peers s) = k \<and> list_all (\<lambda>p. c_string (peer_name p) \<noteq> None) (peers s) \<and>
     length (init_msg s) = 148 \<and> length (resp_msg s) = 92"

section \<open>The abstract machine\<close>

datatype wg_message = Initiation u32 | Response u32 u32 | Data u32 u64 int | Malformed

text \<open>Type, three zeros, and the fields in network order.\<close>

definition wg_decode :: "bytes \<Rightarrow> wg_message" where
  "wg_decode m =
     (if take 4 m = [1, 0, 0, 0] \<and> length m = 148 then Initiation (dec Big (take 4 (drop 4 m)))
      else if take 4 m = [2, 0, 0, 0] \<and> length m = 92
        then Response (dec Big (take 4 (drop 4 m))) (dec Big (take 4 (drop 8 m)))
      else if take 4 m = [4, 0, 0, 0] \<and> 32 \<le> length m
        then Data (dec Big (take 4 (drop 4 m))) (dec Big (take 8 (drop 8 m))) (int (length m) - 32)
      else Malformed)"

record wg_machine =
  index_of :: "u32 list"
  next_counter :: "u64 list"
  pending :: u32

definition wg_spec :: "wg_machine \<Rightarrow> wg_op \<Rightarrow> wg_message \<times> wg_machine" where
  "wg_spec m op =
     (case op of
        Initiate i j \<Rightarrow> (Initiation (index_of m ! i), m\<lparr>pending := index_of m ! i\<rparr>)
      | Respond j \<Rightarrow> (Response (index_of m ! j) (pending m), m)
      | Send i body n \<Rightarrow>
          (Data (index_of m ! i) (next_counter m ! i) n,
           m\<lparr>next_counter := (next_counter m)[i := next_counter m ! i + 1]\<rparr>))"

definition wg_abs :: "'g wg_net \<Rightarrow> wg_machine" where
  "wg_abs s = \<lparr>index_of = map session_index (peers s), next_counter = map tx_counter (peers s),
                pending = dec Big (take 4 (drop 4 (init_msg s)))\<rparr>"

section \<open>The simulation\<close>

lemma wg_peer_name: "wg_wf k s \<Longrightarrow> i < k \<Longrightarrow> \<exists>nm. c_string (peer_name (peers s ! i)) = Some nm"
  by (auto simp: wg_wf_def list_all_length)

lemma decode_initiation:
  assumes "length m = 148" and "take 8 m = [1, 0, 0, 0] @ enc Big (w :: u32)"
  shows "wg_decode m = Initiation w" and "(dec Big (take 4 (drop 4 m)) :: u32) = w"
proof -
  have "take 4 m = take 4 (take 8 m)" and "take 4 (drop 4 m) = drop 4 (take 8 m)" by (simp_all add: drop_take)
  then show "wg_decode m = Initiation w" and "(dec Big (take 4 (drop 4 m)) :: u32) = w"
    unfolding wg_decode_def assms(2) by (simp_all add: assms(1) dec_enc [where n = 4])
qed

lemma decode_response:
  assumes "length m = 92" and "take 12 m = [2, 0, 0, 0] @ enc Big (w :: u32) @ enc Big (v :: u32)"
  shows "wg_decode m = Response w v"
proof -
  have "take 4 m = take 4 (take 12 m)" and "take 4 (drop 4 m) = take 4 (drop 4 (take 12 m))"
    and "take 4 (drop 8 m) = drop 8 (take 12 m)" by (simp_all add: drop_take)
  then show ?thesis unfolding wg_decode_def assms(2) by (simp add: assms(1) dec_enc [where n = 4])
qed

lemma decode_data:
  assumes "int (length m) = n + 32" and "0 \<le> n"
    and "take 16 m = [4, 0, 0, 0] @ enc Big (w :: u32) @ enc Big (c :: u64)"
  shows "wg_decode m = Data w c n"
proof -
  have "take 4 m = take 4 (take 16 m)" and "take 4 (drop 4 m) = take 4 (drop 4 (take 16 m))"
    and "take 8 (drop 8 m) = drop 8 (take 16 m)" by (simp_all add: drop_take)
  moreover have "32 \<le> length m" using assms(1,2) by linarith
  ultimately show ?thesis
    unfolding wg_decode_def assms(3) by (simp add: assms(1) dec_enc [where n = 4] dec_enc [where n = 8])
qed

lemma initiate_refines:
  assumes wf: "wg_wf k s" and "i < k" "j < k"
  shows "\<exists>m s'. wg_step rnd malloc e s (Initiate i j) = Some (m, s') \<and> wg_wf k s' \<and>
    (wg_decode m, wg_abs s') = wg_spec (wg_abs s) (Initiate i j)"
proof -
  obtain n1 n2 where n: "c_string (peer_name (peers s ! i)) = Some n1" "c_string (peer_name (peers s ! j)) = Some n2"
    using wg_peer_name [OF wf] assms(2,3) by blast
  have l: "length (init_msg s) = 148" "length (peers s) = k" using wf by (auto simp: wg_wf_def)
  obtain outs m g where c: "create_handshake_initiation rnd e (peers s ! i) (peers s ! j) (init_msg s) (gen s) = Some (outs, m, g)"
    and m: "length m = 148" "take 8 m = [1, 0, 0, 0] @ enc Big (session_index (peers s ! i))"
    by (rule handshake_initiation_fields [OF l(1) n, of rnd e "gen s"]) blast
  show ?thesis
    using c m(1) decode_initiation [OF m] l wf assms(2,3)
    by (auto simp: wg_step_def wg_spec_def wg_abs_def wg_wf_def)
qed

lemma respond_refines:
  assumes wf: "wg_wf k s" and "j < k"
  shows "\<exists>m s'. wg_step rnd malloc e s (Respond j) = Some (m, s') \<and> wg_wf k s' \<and>
    (wg_decode m, wg_abs s') = wg_spec (wg_abs s) (Respond j)"
proof -
  obtain n where n: "c_string (peer_name (peers s ! j)) = Some n" using wg_peer_name [OF wf assms(2)] by blast
  have l: "length (init_msg s) = 148" "length (resp_msg s) = 92" "length (peers s) = k" using wf by (auto simp: wg_wf_def)
  let ?idx = "dec Big (take 4 (drop 4 (init_msg s))) :: u32"
  have "enc Big ?idx = take 4 (drop 4 (init_msg s))" using l by (simp add: enc_dec)
  then have i: "load32 e (init_msg s) 4 = Some (hton e ?idx)" using l by (simp add: load32_def load_obj_def hton_def)
  obtain outs m g where c: "create_handshake_response rnd e (peers s ! j) (init_msg s) (resp_msg s) (gen s) = Some (outs, m, g)"
    and m: "length m = 92" "take 12 m = [2, 0, 0, 0] @ enc Big (session_index (peers s ! j)) @ enc Big ?idx"
    by (rule handshake_response_fields [OF l(2) n i, of rnd "gen s"]) blast
  show ?thesis
    using c m(1) decode_response [OF m] l wf assms(2)
    by (auto simp: wg_step_def wg_spec_def wg_abs_def wg_wf_def)
qed

lemma send_refines:
  assumes malloc: "is_malloc malloc" and wf: "wg_wf k s" and "i < k" and ok: "sendable malloc (body, n)"
  shows "\<exists>m s'. wg_step rnd malloc e s (Send i body n) = Some (m, s') \<and> wg_wf k s' \<and>
    (wg_decode m, wg_abs s') = wg_spec (wg_abs s) (Send i body n)"
proof -
  let ?p = "peers s ! i"
  obtain nm where nm: "c_string (peer_name ?p) = Some nm" using wg_peer_name [OF wf assms(3)] by blast
  have l: "length (peers s) = k" using wf by (simp add: wg_wf_def)
  obtain blk where b: "malloc (n + 32) = Some blk" and n: "0 \<le> n" "n < 2147483616" using ok by (auto simp: sendable_def)
  obtain outs m g where c: "create_data_packet rnd malloc e ?p body n (gen s) = Some (outs, m, ?p\<lparr>tx_counter := tx_counter ?p + 1\<rparr>, g)"
    and m: "int (length m) = n + 32" "take 16 m = [4, 0, 0, 0] @ enc Big (session_index ?p) @ enc Big (tx_counter ?p)"
    by (rule data_packet_fields [OF malloc b n nm, of rnd e body "gen s"]) blast
  have "map session_index ((peers s)[i := ?p\<lparr>tx_counter := tx_counter ?p + 1\<rparr>]) = map session_index (peers s)"
    by (simp add: map_update list_update_same_conv l assms(3))
  then show ?thesis
    using c decode_data [OF m(1) n(1) m(2)] l wf assms(3) nm
    by (auto simp: wg_step_def wg_spec_def wg_abs_def wg_wf_def map_update list_all_iff dest!: subsetD [OF set_update_subset_insert])
qed

text \<open>The law on \<open>malloc\<close> is part of what an operation may rely on.\<close>

interpretation wg_sim: simulation "wg_step rnd malloc e" wg_spec wg_abs "\<lambda>op. wg_decode" "wg_wf k"
    "\<lambda>op. is_malloc malloc \<and> wg_allowed k malloc op" for rnd malloc e k
proof unfold_locales
  fix s :: "'a wg_net" and op assume "wg_wf k s" "is_malloc malloc \<and> wg_allowed k malloc op"
  then show "\<exists>m s'. wg_step rnd malloc e s op = Some (m, s') \<and> wg_wf k s' \<and>
      (wg_decode m, wg_abs s') = wg_spec (wg_abs s) op"
    by (cases op) (simp_all add: wg_allowed_def initiate_refines respond_refines send_refines)
qed

lemma wg_run_refines:
  assumes "is_malloc malloc" and "wg_wf k s" and "list_all (wg_allowed k malloc) ops"
  obtains ms s' where "run_ops (wg_step rnd malloc e) s ops = Some (ms, s')" and "wg_wf k s'"
    and "(map wg_decode ms, wg_abs s') = run_spec wg_spec (wg_abs s) ops"
    and "length ms = length ops"
proof -
  have a: "list_all (\<lambda>op. is_malloc malloc \<and> wg_allowed k malloc op) ops"
    using assms(1,3) by (simp add: list_all_iff)
  obtain ms s' where r: "run_ops (wg_step rnd malloc e) s ops = Some (ms, s')" "wg_wf k s'"
    and m: "(map2 (\<lambda>op. wg_decode) ops ms, wg_abs s') = run_spec wg_spec (wg_abs s) ops"
    using wg_sim.run_refines [OF assms(2) a, of rnd e] by blast
  have "length ms = length ops" by (rule run_ops_length [OF r(1)])
  then have "map2 (\<lambda>op. wg_decode) ops ms = map wg_decode ms" by (induction ms ops rule: list_induct2) simp_all
  with r m \<open>length ms = length ops\<close> show thesis by (intro that) auto
qed

section \<open>The counters of the data packets\<close>

fun data_pairs :: "wg_message list \<Rightarrow> (u32 \<times> u64) list" where
  "data_pairs [] = []"
| "data_pairs (Data idx c n # ms) = (idx, c) # data_pairs ms"
| "data_pairs (_ # ms) = data_pairs ms"

definition counters_of :: "u32 \<Rightarrow> (u32 \<times> u64) list \<Rightarrow> u64 list" where
  "counters_of idx ps = map snd (filter (\<lambda>p. fst p = idx) ps)"

lemma length_counters_of: "length (counters_of idx ps) \<le> length ps"
  by (simp add: counters_of_def)

lemma length_data_pairs: "length (data_pairs (fst (run_spec wg_spec m ops))) = length (filter is_Send ops)"
proof (induction ops arbitrary: m)
  case (Cons op ops)
  obtain r m' where o: "wg_spec m op = (r, m')" by fastforce
  then have "fst (run_spec wg_spec m (op # ops)) = r # fst (run_spec wg_spec m' ops)" by (simp split: prod.split)
  moreover have "length (data_pairs (r # ms)) = (if is_Send op then Suc (length (data_pairs ms)) else length (data_pairs ms))" for ms
    using o by (cases op) (auto simp: wg_spec_def)
  ultimately show ?case using Cons.IH [of m'] by simp
qed simp

lemma distinct_by_index: "(\<And>idx. distinct (counters_of idx ps)) \<Longrightarrow> distinct ps"
proof (induction ps)
  case (Cons p ps)
  have "p \<notin> set ps"
  proof
    assume "p \<in> set ps"
    then have "snd p \<in> set (counters_of (fst p) ps)" by (auto simp: counters_of_def)
    with Cons.prems [of "fst p"] show False by (simp add: counters_of_def)
  qed
  moreover have "distinct (counters_of idx ps)" for idx
    using Cons.prems [of idx] by (auto simp: counters_of_def split: if_splits)
  ultimately show ?case using Cons.IH by simp
qed simp

text \<open>For a machine whose indices are distinct, the packets of one peer carry consecutive counters,
  whatever the others do in between.\<close>

lemma consecutive_counters:
  assumes "distinct (index_of m)" and "i < length (index_of m)" and "length (next_counter m) = length (index_of m)"
    and "list_all (wg_allowed (length (index_of m)) malloc) ops"
  shows "\<exists>k. counters_of (index_of m ! i) (data_pairs (fst (run_spec wg_spec m ops))) =
    map (\<lambda>j. next_counter m ! i + of_nat j) [0..<k]"
  using assms
proof (induction ops arbitrary: m)
  case Nil
  show ?case by (intro exI [of _ 0]) (simp add: counters_of_def)
next
  case (Cons op ops)
  obtain r m' where o: "wg_spec m op = (r, m')" by fastforce
  have same: "index_of m' = index_of m" "length (next_counter m') = length (next_counter m)"
    using o by (cases op; auto simp: wg_spec_def)+
  obtain k where k: "counters_of (index_of m ! i) (data_pairs (fst (run_spec wg_spec m' ops))) =
      map (\<lambda>j. next_counter m' ! i + of_nat j) [0..<k]"
    using Cons.IH [of m'] Cons.prems same by auto
  have first: "fst (run_spec wg_spec m (op # ops)) = r # fst (run_spec wg_spec m' ops)"
    by (simp add: o split: prod.split)
  show ?case
  proof (cases "\<exists>body n. op = Send i body n")
    case True
    then have "r = Data (index_of m ! i) (next_counter m ! i) (case op of Send _ _ n \<Rightarrow> n)"
      and c: "next_counter m' ! i = next_counter m ! i + 1"
      using o Cons.prems(2,3) by (auto simp: wg_spec_def)
    then have "counters_of (index_of m ! i) (data_pairs (fst (run_spec wg_spec m (op # ops)))) =
        next_counter m ! i # map (\<lambda>j. next_counter m ! i + 1 + of_nat j) [0..<k]"
      unfolding first using k [unfolded c] by (simp add: counters_of_def)
    also have "\<dots> = map (\<lambda>j. next_counter m ! i + of_nat j) [0..<Suc k]"
      by (simp add: upt_conv_Cons map_Suc_upt [symmetric] comp_def add.assoc del: upt_Suc)
    finally show ?thesis by blast
  next
    case False
    then have "next_counter m' ! i = next_counter m ! i"
      and "counters_of (index_of m ! i) (data_pairs (r # ms)) = counters_of (index_of m ! i) (data_pairs ms)" for ms
      using o Cons.prems(1,2,4)
      by (cases op; auto simp: wg_spec_def wg_allowed_def counters_of_def nth_eq_iff_index_eq)+
    with k first show ?thesis by metis
  qed
qed

lemma data_pairs_known:
  assumes "length (index_of m) = k" and "list_all (wg_allowed k malloc) ops"
  shows "set (map fst (data_pairs (fst (run_spec wg_spec m ops)))) \<subseteq> set (index_of m)"
  using assms
proof (induction ops arbitrary: m)
  case (Cons op ops)
  obtain r m' where o: "wg_spec m op = (r, m')" by fastforce
  have same: "index_of m' = index_of m" using o by (cases op; auto simp: wg_spec_def)
  have "set (map fst (data_pairs (fst (run_spec wg_spec m' ops)))) \<subseteq> set (index_of m')"
    using Cons.IH [of m'] Cons.prems same by simp
  moreover have "set (map fst (data_pairs (r # ms))) \<subseteq> set (index_of m) \<union> set (map fst (data_pairs ms))" for ms
    using o Cons.prems by (cases op; auto simp: wg_spec_def wg_allowed_def rev_image_eqI)
  moreover have first: "fst (run_spec wg_spec m (op # ops)) = r # fst (run_spec wg_spec m' ops)"
    by (simp add: o split: prod.split)
  ultimately show ?case unfolding first same by (meson Un_least order_refl order_trans)
qed simp

lemma counter_range_distinct: "k \<le> 2 ^ 64 \<Longrightarrow> distinct (map (\<lambda>j. (c :: u64) + of_nat j) [0..<k])"
  using data_headers_distinct [of k undefined c] by (auto simp: distinct_map inj_on_def data_header_def)

section \<open>Properties\<close>

text \<open>C9: the WireGuard program refines its abstract machine. Over any sequence of handshakes,
  answers and data packets between any number of peers, for every random generator, on either
  host, and when \<open>malloc\<close> succeeds for the packets that are sent, no access is out of bounds, and
  the messages, decoded from their bytes, are those of a machine that keeps an index and a
  counter for each peer and the index of the last initiation: a response answers the last
  initiation whoever it was for, a data packet carries the sender's own index and counter, and
  only data packets move a counter.\<close>

theorem wg_program_refines:
  assumes "is_malloc malloc" and "wg_wf k s" and "list_all (wg_allowed k malloc) ops"
  shows "\<exists>ms s'. run_ops (wg_step rnd malloc e) s ops = Some (ms, s') \<and> wg_wf k s' \<and>
    (map wg_decode ms, wg_abs s') = run_spec wg_spec (wg_abs s) ops"
  by (rule wg_run_refines [OF assms, of rnd e]) blast

text \<open>C10: as long as no two peers have the same session index, no nonce is used twice in the program.
  Over any sequence of handshakes, answers and at most $2^{64}$ data packets, every data packet
  sent is on the network, with the index of one of the peers, and the pairs of index and counter
  of the data packets are distinct; a handshake in between resets no counter. The indices are
  random numbers that the code does not compare: peers that share one reuse nonces
  (\<open>shared_index_reuses_nonce\<close>).\<close>

theorem wg_program_fresh_nonces:
  assumes "is_malloc malloc" and "wg_wf k s" and "list_all (wg_allowed k malloc) ops"
    and "distinct (map session_index (peers s))" and "length (filter is_Send ops) \<le> 2 ^ 64"
  shows "\<exists>ms s'. run_ops (wg_step rnd malloc e) s ops = Some (ms, s') \<and>
    length (data_pairs (map wg_decode ms)) = length (filter is_Send ops) \<and>
    distinct (data_pairs (map wg_decode ms)) \<and>
    set (map fst (data_pairs (map wg_decode ms))) \<subseteq> set (map session_index (peers s))"
proof -
  obtain ms s' where r: "run_ops (wg_step rnd malloc e) s ops = Some (ms, s')"
    and m: "map wg_decode ms = fst (run_spec wg_spec (wg_abs s) ops)" and l: "length ms = length ops"
    by (rule wg_run_refines [OF assms(1-3), of rnd e]) (metis fst_conv)
  have n: "length (peers s) = k" using assms(2) by (simp add: wg_wf_def)
  let ?ps = "data_pairs (map wg_decode ms)"
  have known: "set (map fst ?ps) \<subseteq> set (index_of (wg_abs s))"
    unfolding m by (rule data_pairs_known [where k = k and malloc = malloc]) (use assms(3) n in \<open>auto simp: wg_abs_def\<close>)
  have "distinct (counters_of idx ?ps)" for idx
  proof (cases "idx \<in> set (index_of (wg_abs s))")
    case True
    then obtain i where i: "i < length (index_of (wg_abs s))" "index_of (wg_abs s) ! i = idx"
      by (auto simp: in_set_conv_nth)
    obtain c j where c: "counters_of idx ?ps = map (\<lambda>i. c + of_nat i) [0..<j]"
      using consecutive_counters [of "wg_abs s" i malloc ops] i assms(3,4) n by (auto simp: m wg_abs_def)
    have "j \<le> 2 ^ 64"
      using length_counters_of [of idx ?ps] assms(5) c by (simp add: m length_data_pairs)
    then show ?thesis unfolding c by (rule counter_range_distinct)
  next
    case False
    with known have "counters_of idx ?ps = []" by (auto simp: counters_of_def filter_empty_conv)
    then show ?thesis by simp
  qed
  then have "distinct ?ps" by (rule distinct_by_index)
  with r known show ?thesis by (auto simp: wg_abs_def m length_data_pairs)
qed

lemma shared_index_reuses_nonce:
  assumes "i < length (next_counter m)" "j < length (next_counter m)" "i \<noteq> j"
    and "index_of m ! i = index_of m ! j" and "next_counter m ! i = next_counter m ! j"
  shows "\<not> distinct (data_pairs (fst (run_spec wg_spec m [Send i b n, Send j b' n'])))"
  using assms by (simp add: wg_spec_def)

definition sample_net :: "nat wg_net" where
  "sample_net =
     \<lparr>peers =
        [\<lparr>peer_name = [65, 0], public_key = [], private_key = [], session_index = 7, tx_counter = 5, rx_counter = 0\<rparr>,
         \<lparr>peer_name = [66, 0], public_key = [], private_key = [], session_index = 9, tx_counter = 0, rx_counter = 0\<rparr>],
      init_msg = replicate 148 0xAA, resp_msg = replicate 92 0xAA, gen = 0\<rparr>"

definition sample_malloc :: "int \<Rightarrow> bytes option" where
  "sample_malloc n = (if n < 0 then None else Some (replicate (nat n) 0))"

definition sample_traffic :: "wg_op list" where
  "sample_traffic = [Initiate 0 1, Respond 1, Send 0 ''hi'' 2, Send 1 ''there'' 5, Initiate 1 0, Send 0 ''again'' 5]"

lemma sample_net_ok:
  "is_malloc sample_malloc" "wg_wf 2 sample_net" "list_all (wg_allowed 2 sample_malloc) sample_traffic"
  "distinct (map session_index (peers sample_net))" "length (filter is_Send sample_traffic) \<le> 2 ^ 64"
  by (auto simp: is_malloc_def sample_malloc_def wg_wf_def sample_net_def c_string_def wg_allowed_def
      sample_traffic_def sendable_def)

theorem wg_program_refines_witness:
  "\<exists>ms s'. run_ops (wg_step (\<lambda>g. (of_nat g, g + 1)) sample_malloc Little) sample_net sample_traffic = Some (ms, s') \<and>
    map wg_decode ms =
      [Initiation 7, Response 9 7, Data 7 5 2, Data 9 0 5, Initiation 9, Data 7 6 5]"
proof -
  have "fst (run_spec wg_spec (wg_abs sample_net) sample_traffic) =
      [Initiation 7, Response 9 7, Data 7 5 2, Data 9 0 5, Initiation 9, Data 7 6 5]"
    by (simp add: sample_traffic_def wg_spec_def wg_abs_def sample_net_def)
  then show ?thesis
    using wg_program_refines [OF sample_net_ok(1-3), of "\<lambda>g. (of_nat g, g + 1)" Little] by (metis fst_conv)
qed

theorem wg_program_fresh_nonces_witness:
  "\<exists>ms s'. run_ops (wg_step (\<lambda>g. (of_nat g, g + 1)) sample_malloc Big) sample_net sample_traffic = Some (ms, s') \<and>
    length (data_pairs (map wg_decode ms)) = 3 \<and>
    distinct (data_pairs (map wg_decode ms)) \<and> set (map fst (data_pairs (map wg_decode ms))) \<subseteq> {7, 9}"
proof -
  have n: "length (filter is_Send sample_traffic) = 3" "set (map session_index (peers sample_net)) = {7, 9}"
    by (simp_all add: sample_traffic_def sample_net_def)
  show ?thesis
    using wg_program_fresh_nonces [OF sample_net_ok, of "\<lambda>g. (of_nat g, g + 1)" Big] unfolding n .
qed

end
