(* ===== verification/SimpleVpn.thy ===== *)
theory SimpleVpn
  imports Posix
begin

text \<open>
  The VPN of sample-projects/vpn-implementation/simple_vpn.c: the creation of the TUN
  interface, the cipher with its constant key, the set-up and the main loop of the server and
  of the client, and \<open>main\<close>. The functions that make system calls go on with a continuation;
  \<open>exit\<close> ends the process. The uninitialised buffers are arguments.

  A reply to \<open>ioctl\<close> carries the interface name that the kernel stores in the request. A
  descriptor outside the range of an \<open>fd_set\<close> makes \<open>FD_SET\<close> undefined.
\<close>

section \<open>The code\<close>

definition shared_key :: bytes where
  "shared_key = bytes_of ''MySecretKey12345''"

text \<open>\<open>tun_alloc\<close>, which goes on with the descriptor (negative on failure) and the name.\<close>

definition tun_alloc :: "bytes \<Rightarrow> (int \<Rightarrow> bytes \<Rightarrow> 's prog) \<Rightarrow> 's prog" where
  "tun_alloc dev k =
     Sys (Open ''/dev/net/tun'') (\<lambda>r. let fd = ret r in
     if fd < 0 then Say (Perror ''Opening /dev/net/tun'') (k fd dev) else
     attempt (load8 dev 0) (\<lambda>first.
     attempt (if first \<noteq> 0
              then (case c_string dev of None \<Rightarrow> None | Some s \<Rightarrow> strncpy (replicate 16 0) s 16)
              else Some (replicate 16 0)) (\<lambda>ifr_name.
     Sys (Ioctl fd ifr_name 0x1001) (\<lambda>r.
     if ret r < 0 then Say (Perror ''ioctl(TUNSETIFF)'') (Sys (Close fd) (\<lambda>_. k (ret r) dev)) else
     attempt (write_bytes ifr_name 0 (take 16 (payload r))) (\<lambda>ifr_name.
     attempt (c_string ifr_name) (\<lambda>s.
     attempt (write_bytes dev 0 (s @ [0])) (\<lambda>dev. k fd dev)))))))"

text \<open>The loop of \<open>simple_encrypt\<close> from index \<open>i\<close>, with \<open>n\<close> bytes to go.\<close>

fun encrypt_loop :: "bytes \<Rightarrow> bytes \<Rightarrow> nat \<Rightarrow> nat \<Rightarrow> bytes option" where
  "encrypt_loop dat key i 0 = Some dat"
| "encrypt_loop dat key i (Suc n) = do {
     b \<leftarrow> load8 dat i;
     k \<leftarrow> load8 key (i mod 16);
     dat \<leftarrow> store8 dat i (b XOR k);
     encrypt_loop dat key (i + 1) n }"

definition simple_encrypt :: "bytes \<Rightarrow> int \<Rightarrow> bytes \<Rightarrow> bytes option" where
  "simple_encrypt dat n key = encrypt_loop dat key 0 (nat n)"

definition tun0 :: bytes where
  "tun0 = bytes_of ''tun0'' @ replicate 12 0"

definition fd_set_add :: "int \<Rightarrow> int list \<Rightarrow> int list option" where
  "fd_set_add fd fds = (if 0 \<le> fd \<and> fd < 1024 then Some (fds @ [fd]) else None)"

text \<open>The variables of both loops; \<open>vpn_peer\<close> is \<open>client_addr\<close> in the server and \<open>server_addr\<close>
  in the client.\<close>

record vpn_vars =
  tun_fd :: int
  sock_fd :: int
  vpn_buffer :: bytes
  vpn_peer :: sockaddr_in

text \<open>The part of the set-up that server and client share: the interface, its two commands and
  the socket.\<close>

definition vpn_setup :: "string \<Rightarrow> bytes \<Rightarrow> (int \<Rightarrow> int \<Rightarrow> 's prog) \<Rightarrow> 's prog" where
  "vpn_setup tun_ip cmd k =
     tun_alloc tun0 (\<lambda>tfd tun_name.
     if tfd < 0 then Say (Fprintf_stderr (''Error creating TUN interface'' @ nl) []) (Exit 1) else
     attempt (c_string tun_name) (\<lambda>name.
     Say (Printf (''[+] TUN interface %s created'' @ nl) [CStr (string_of name)])
     (attempt (snprintf cmd 256 ''ip addr add %s/24 dev %s'' [CStr tun_ip, CStr (string_of name)]) (\<lambda>cmd.
     attempt (c_string cmd) (\<lambda>line.
     Sys (System line) (\<lambda>_.
     attempt (snprintf cmd 256 ''ip link set %s up'' [CStr (string_of name)]) (\<lambda>cmd.
     attempt (c_string cmd) (\<lambda>line.
     Sys (System line) (\<lambda>_.
     Say (Printf (''[+] TUN interface configured with IP %s'' @ nl) [CStr tun_ip])
     (Sys (Socket AF_INET SOCK_DGRAM 0) (\<lambda>r. let sfd = ret r in
     if sfd < 0 then Say (Perror ''Socket creation failed'') (Exit 1) else k tfd sfd)))))))))))"

text \<open>After a \<open>break\<close>: both descriptors are closed, and \<open>main\<close> returns 0.\<close>

definition vpn_cleanup :: "vpn_vars \<Rightarrow> vpn_vars prog" where
  "vpn_cleanup v = Sys (Close (tun_fd v)) (\<lambda>_. Sys (Close (sock_fd v)) (\<lambda>_. Exit 0))"

text \<open>The head of both loops: the descriptor set and \<open>select\<close>.\<close>

definition vpn_select :: "vpn_vars \<Rightarrow> (reply \<Rightarrow> vpn_vars prog) \<Rightarrow> vpn_vars prog" where
  "vpn_select v k =
     attempt (fd_set_add (tun_fd v) []) (\<lambda>fds.
     attempt (fd_set_add (sock_fd v) fds) (\<lambda>fds.
     let max_fd = (if tun_fd v > sock_fd v then tun_fd v else sock_fd v) in
     Sys (Select (max_fd + 1) fds) (\<lambda>r.
     if ret r < 0 then Say (Perror ''Select failed'') (vpn_cleanup v) else k r)))"

abbreviation arrow :: string where
  "arrow \<equiv> [CHR 0xE2, CHR 0x86, CHR 0x92]"

text \<open>Both branches end with a write to the TUN interface.\<close>

definition vpn_write_tun :: "vpn_vars \<Rightarrow> int \<Rightarrow> vpn_vars prog" where
  "vpn_write_tun v n =
     attempt (simple_encrypt (vpn_buffer v) n shared_key) (\<lambda>buf.
     let v = v\<lparr>vpn_buffer := buf\<rparr> in
     attempt (bytes_at buf n) (\<lambda>bs.
     Sys (Write (tun_fd v) bs) (\<lambda>r.
     if ret r < 0 then Say (Perror ''Writing to TUN'') (Again v)
     else Say (Printf (''[NET'' @ arrow @ ''TUN] Decrypted and written to TUN'' @ nl) []) (Again v))))"

definition server_net :: "endian \<Rightarrow> vpn_vars \<Rightarrow> int list \<Rightarrow> vpn_vars prog" where
  "server_net e v fds =
     (if sock_fd v \<in> set fds then
        Sys (Recvfrom (sock_fd v) 2048) (\<lambda>r.
        attempt (write_bytes (vpn_buffer v) 0 (received 2048 r)) (\<lambda>buf.
        let n = received_len 2048 r; v = v\<lparr>vpn_buffer := buf\<rparr> in
        if n < 0 then Say (Perror ''Receiving from socket'') (Again v)
        else
          let client_addr = peer r; v = v\<lparr>vpn_peer := client_addr\<rparr> in
          Say (Printf (''[NET'' @ arrow @ ''TUN] Received %d bytes from %s:%d'' @ nl)
                 [CInt n, CStr (inet_ntoa e (sin_addr client_addr)), of_u (ntoh e (sin_port client_addr))])
          (vpn_write_tun v n)))
      else Again v)"

definition server_round :: "endian \<Rightarrow> vpn_vars \<Rightarrow> vpn_vars prog" where
  "server_round e v =
     vpn_select v (\<lambda>sel.
     if tun_fd v \<in> set (ready sel) then
       Sys (Read (tun_fd v) 2048) (\<lambda>r.
       attempt (write_bytes (vpn_buffer v) 0 (received 2048 r)) (\<lambda>buf.
       let n = received_len 2048 r; v = v\<lparr>vpn_buffer := buf\<rparr> in
       if n < 0 then Say (Perror ''Reading from TUN'') (Again v)
       else
         Say (Printf (''[TUN'' @ arrow @ ''NET] Read %d bytes from TUN'' @ nl) [CInt n])
         (attempt (simple_encrypt (vpn_buffer v) n shared_key) (\<lambda>buf.
         Say (Printf (''[TUN'' @ arrow @ ''NET] Encrypted and ready to send'' @ nl) [])
         (server_net e (v\<lparr>vpn_buffer := buf\<rparr>) (ready sel))))))
     else server_net e v (ready sel))"

definition vpn_server_addr :: "endian \<Rightarrow> sockaddr_in" where
  "vpn_server_addr e = \<lparr>sin_port = hton e 5555, sin_addr = 0\<rparr>"

definition run_server :: "endian \<Rightarrow> string \<Rightarrow> bytes \<Rightarrow> bytes \<Rightarrow> vpn_vars prog" where
  "run_server e tun_ip cmd buf =
     vpn_setup tun_ip cmd (\<lambda>tfd sfd.
     Sys (Bind sfd (vpn_server_addr e)) (\<lambda>r.
     if ret r < 0 then Say (Perror ''Bind failed'') (Exit 1) else
     Say (Printf (''[+] Listening on port %d'' @ nl) [CInt 5555])
     (Say (Printf (''[+] VPN server ready!'' @ nl @ nl) [])
     (Again \<lparr>tun_fd = tfd, sock_fd = sfd, vpn_buffer = buf, vpn_peer = \<lparr>sin_port = 0, sin_addr = 0\<rparr>\<rparr>))))"

definition client_net :: "vpn_vars \<Rightarrow> int list \<Rightarrow> vpn_vars prog" where
  "client_net v fds =
     (if sock_fd v \<in> set fds then
        Sys (Recvfrom (sock_fd v) 2048) (\<lambda>r.
        attempt (write_bytes (vpn_buffer v) 0 (received 2048 r)) (\<lambda>buf.
        let n = received_len 2048 r; v = v\<lparr>vpn_buffer := buf\<rparr> in
        if n < 0 then Say (Perror ''Receiving from socket'') (Again v)
        else
          Say (Printf (''[NET'' @ arrow @ ''TUN] Received %d bytes from server'' @ nl) [CInt n])
          (vpn_write_tun v n)))
      else Again v)"

definition client_round :: "vpn_vars \<Rightarrow> vpn_vars prog" where
  "client_round v =
     vpn_select v (\<lambda>sel.
     if tun_fd v \<in> set (ready sel) then
       Sys (Read (tun_fd v) 2048) (\<lambda>r.
       attempt (write_bytes (vpn_buffer v) 0 (received 2048 r)) (\<lambda>buf.
       let n = received_len 2048 r; v = v\<lparr>vpn_buffer := buf\<rparr> in
       if n < 0 then Say (Perror ''Reading from TUN'') (Again v)
       else
         Say (Printf (''[TUN'' @ arrow @ ''NET] Read %d bytes from TUN'' @ nl) [CInt n])
         (attempt (simple_encrypt (vpn_buffer v) n shared_key) (\<lambda>buf.
         let v = v\<lparr>vpn_buffer := buf\<rparr> in
         attempt (bytes_at buf n) (\<lambda>bs.
         Sys (Sendto (sock_fd v) bs (vpn_peer v)) (\<lambda>r.
         if ret r < 0 then Say (Perror ''Sending to server'') (Again v)
         else
           Say (Printf (''[TUN'' @ arrow @ ''NET] Encrypted and sent to server'' @ nl) [])
           (client_net v (ready sel))))))))
     else client_net v (ready sel))"

definition run_client :: "endian \<Rightarrow> string \<Rightarrow> string \<Rightarrow> bytes \<Rightarrow> bytes \<Rightarrow> vpn_vars prog" where
  "run_client e tun_ip server_ip cmd buf =
     vpn_setup tun_ip cmd (\<lambda>tfd sfd.
     (case inet_pton e server_ip of
        None \<Rightarrow> Say (Fprintf_stderr (''Invalid server IP'' @ nl) []) (Exit 1)
      | Some a \<Rightarrow>
          let server_addr = \<lparr>sin_port = hton e 5555, sin_addr = a\<rparr> in
          Say (Printf (''[+] Connected to server %s:%d'' @ nl) [CStr server_ip, CInt 5555])
          (Say (Printf (''[+] VPN client ready!'' @ nl @ nl) [])
          (Again \<lparr>tun_fd = tfd, sock_fd = sfd, vpn_buffer = buf, vpn_peer = server_addr\<rparr>))))"

definition vpn_usage :: "string \<Rightarrow> out list" where
  "vpn_usage argv0 =
     [Printf (''Usage:'' @ nl) [],
      Printf (''  Server: %s server <tun_ip>'' @ nl) [CStr argv0],
      Printf (''  Client: %s client <tun_ip> <server_ip>'' @ nl) [CStr argv0],
      Printf (nl @ ''Example:'' @ nl) [],
      Printf (''  Server: sudo %s server 10.8.0.1'' @ nl) [CStr argv0],
      Printf (''  Client: sudo %s client 10.8.0.2 SERVER_PUBLIC_IP'' @ nl) [CStr argv0]]"

text \<open>\<open>main\<close> selects the loop to run: the program, and whether it is the client's.\<close>

definition vpn_main :: "endian \<Rightarrow> bytes \<Rightarrow> bytes \<Rightarrow> string list \<Rightarrow> vpn_vars prog" where
  "vpn_main e cmd buf argv =
     (if length argv < 3 then attempt (nth_opt argv 0) (\<lambda>argv0. says (vpn_usage argv0) (Exit 1))
      else if argv ! 1 = ''server'' then run_server e (argv ! 2) cmd buf
      else if argv ! 1 = ''client'' then
        (if length argv < 4 then Say (Fprintf_stderr (''Client mode requires server IP'' @ nl) []) (Exit 1)
         else run_client e (argv ! 2) (argv ! 3) cmd buf)
      else Say (Fprintf_stderr (''Invalid mode. Use '' @ [CHR 0x27] @ ''server'' @ [CHR 0x27] @ '' or '' @
                 [CHR 0x27] @ ''client'' @ [CHR 0x27] @ nl) []) (Exit 1))"

definition vpn_round :: "endian \<Rightarrow> string list \<Rightarrow> vpn_vars \<Rightarrow> vpn_vars prog" where
  "vpn_round e argv = (if argv ! 1 = ''server'' then server_round e else client_round)"

section \<open>The cipher\<close>

text \<open>
  The interface of a stream cipher that encrypts and decrypts by the same operation: XOR
  with a key stream. The leak of two messages under the same key stream is proved here.
\<close>

definition xor_bytes :: "bytes \<Rightarrow> bytes \<Rightarrow> bytes" where
  "xor_bytes xs ys = map2 (XOR) xs ys"

lemma xor_bytes_simps [simp]:
  "xor_bytes [] ys = []" "xor_bytes (x # xs) (y # ys) = (x XOR y) # xor_bytes xs ys"
  "length (xor_bytes xs ys) = min (length xs) (length ys)"
  by (simp_all add: xor_bytes_def)

lemma xor_bytes_cancel: "length xs \<le> length ys \<Longrightarrow> xor_bytes (xor_bytes xs ys) ys = xs"
proof (induction xs arbitrary: ys)
  case (Cons x xs)
  then show ?case by (cases ys) (auto simp: xor.assoc)
qed simp

lemma xor_bytes_two: "length xs = length zs \<Longrightarrow> length xs \<le> length ys \<Longrightarrow>
  xor_bytes (xor_bytes xs ys) (xor_bytes zs ys) = xor_bytes xs zs"
proof (induction xs zs arbitrary: ys rule: list_induct2)
  case (Cons x xs z zs)
  then obtain y ys' where y: "ys = y # ys'" by (cases ys) auto
  have "(x XOR y) XOR (z XOR y) = x XOR z"
    by (simp add: bit_eq_iff bit_simps) auto
  then show ?case using Cons by (simp add: y)
qed simp

locale stream_cipher =
  fixes crypt :: "bytes \<Rightarrow> bytes" and stream :: "nat \<Rightarrow> bytes"
  assumes crypt_stream: "crypt bs = xor_bytes bs (stream (length bs))"
    and stream_length: "length (stream n) = n"
begin

lemma length_crypt [simp]: "length (crypt bs) = length bs"
  by (simp add: crypt_stream stream_length)

lemma crypt_crypt: "crypt (crypt bs) = bs"
  using xor_bytes_cancel [of bs "stream (length bs)"]
  by (simp add: crypt_stream stream_length)

lemma crypt_inject: "crypt bs = crypt bs' \<longleftrightarrow> bs = bs'"
  by (metis crypt_crypt)

lemma map_crypt_crypt: "map crypt (map crypt bss) = bss"
  by (induction bss) (auto simp: crypt_crypt)

lemma two_time_pad: "length a = length b \<Longrightarrow> xor_bytes (crypt a) (crypt b) = xor_bytes a b"
  using xor_bytes_two [of a b "stream (length a)"] by (simp add: crypt_stream stream_length)

end

text \<open>The model's cipher: the shared key, repeated.\<close>

definition key_stream :: "nat \<Rightarrow> bytes" where
  "key_stream n = map (\<lambda>i. shared_key ! (i mod 16)) [0..<n]"

definition xor_key :: "bytes \<Rightarrow> bytes" where
  "xor_key bs = xor_bytes bs (key_stream (length bs))"

interpretation vpn_cipher: stream_cipher xor_key key_stream
  by unfold_locales (simp_all add: xor_key_def key_stream_def)

lemma length_shared_key [simp]: "length shared_key = 16"
  by (simp add: shared_key_def)

lemma encrypt_loop_eq:
  "i + n \<le> length dat \<Longrightarrow> encrypt_loop dat shared_key i n =
     Some (take i dat @ xor_bytes (take n (drop i dat)) (map (\<lambda>j. shared_key ! (j mod 16)) [i..<i + n]) @ drop (i + n) dat)"
proof (induction n arbitrary: dat i)
  case (Suc n)
  let ?x = "dat ! i XOR shared_key ! (i mod 16)"
  let ?d = "take i dat @ [?x] @ drop (Suc i) dat"
  have d: "store8 dat i ?x = Some ?d"
    using Suc.prems by (simp add: store8_def write_bytes_def)
  have l: "length ?d = length dat" using Suc.prems by simp
  have "encrypt_loop ?d shared_key (i + 1) n = Some (take (i + 1) ?d @
      xor_bytes (take n (drop (i + 1) ?d)) (map (\<lambda>j. shared_key ! (j mod 16)) [i + 1..<i + 1 + n]) @ drop (i + 1 + n) ?d)"
    by (rule Suc.IH) (use Suc.prems l in simp)
  moreover have "take (i + 1) ?d = take i dat @ [?x]" using Suc.prems by simp
  moreover have "drop (i + 1) ?d = drop (Suc i) dat" using Suc.prems by simp
  moreover have "drop (i + 1 + n) ?d = drop (i + Suc n) dat"
    using Suc.prems by (simp add: min_def add.commute)
  moreover have "take (Suc n) (drop i dat) = dat ! i # take n (drop (Suc i) dat)"
    using Suc.prems by (simp add: Cons_nth_drop_Suc [symmetric])
  moreover have "[i..<i + Suc n] = i # [i + 1..<i + 1 + n]" by (simp add: upt_conv_Cons del: upt_Suc)
  ultimately show ?case using Suc.prems d by (simp add: load8_def del: upt_Suc)
qed simp

lemma simple_encrypt_eq:
  assumes "0 \<le> n" and "nat n \<le> length dat"
  shows "simple_encrypt dat n shared_key = Some (xor_key (take (nat n) dat) @ drop (nat n) dat)"
  using encrypt_loop_eq [of 0 "nat n" dat] assms
  by (simp add: simple_encrypt_def xor_key_def key_stream_def min_def)

text \<open>With any key, a run of the loop that succeeds changes its part of the buffer only.\<close>

fun_cases encrypt_loop_SucE: "encrypt_loop dat key i (Suc n) = Some d"

lemma encrypt_loop_keeps:
  "encrypt_loop dat key i n = Some d \<Longrightarrow> length d = length dat \<and> take i d = take i dat \<and> drop (i + n) d = drop (i + n) dat"
proof (induction n arbitrary: dat i)
  case (Suc n)
  from Suc.prems obtain b k dat' where s: "store8 dat i (b XOR k) = Some dat'" "encrypt_loop dat' key (i + 1) n = Some d"
    by (elim encrypt_loop_SucE) (auto simp: bind_eq_Some_conv eq_commute [of "Some d"])
  then have "dat' = take i dat @ [b XOR k] @ drop (Suc i) dat" and "i < length dat"
    by (auto simp: store8_def write_bytes_def split: if_splits)
  moreover have "take i d = take i (take (i + 1) d)" by (simp add: min_def)
  ultimately show ?case using Suc.IH [OF s(2)] by (simp add: min_def add.commute del: take_take)
qed simp

section \<open>The set-up\<close>

lemma c_string_terminated: "c_string (xs @ 0 # rest) = Some (takeWhile (\<lambda>b. b \<noteq> 0) xs)"
proof (cases "0 \<in> set xs")
  case True
  then show ?thesis by (simp add: c_string_def takeWhile_append1 [OF True])
next
  case False
  then show ?thesis by (simp add: c_string_append_zero takeWhile_no_zero)
qed

text \<open>The command that \<open>snprintf\<close> leaves in \<open>cmd\<close>, cut at 255 characters.\<close>

definition cmd_line :: "string \<Rightarrow> carg list \<Rightarrow> bytes" where
  "cmd_line f args = takeWhile (\<lambda>b. b \<noteq> 0) (bytes_of (take 255 (c_format f args)))"

lemma snprintf_cmd:
  assumes "length cmd = 256"
  obtains c where "snprintf cmd 256 f args = Some c" and "length c = 256" and "c_string c = Some (cmd_line f args)"
proof
  let ?s = "bytes_of (take 255 (c_format f args))"
  let ?c = "?s @ 0 # drop (Suc (length ?s)) cmd"
  show "snprintf cmd 256 f args = Some ?c" using assms by (simp add: snprintf_def write_bytes_def)
  show "length ?c = 256" using assms by simp
  show "c_string ?c = Some (cmd_line f args)" by (simp only: c_string_terminated cmd_line_def)
qed

definition tun_name_of :: "reply \<Rightarrow> bytes option" where
  "tun_name_of r = c_string (take 16 (payload r) @ drop (length (take 16 (payload r))) tun0)"

lemma c_string_tun0: "c_string tun0 = Some (bytes_of ''tun0'')"
proof -
  have "tun0 = bytes_of ''tun0'' @ 0 # replicate 11 0"
    using replicate_Suc [of 11 "0 :: u8"] by (simp add: tun0_def)
  moreover have "0 \<notin> set (bytes_of ''tun0'')" by (simp add: zero_not_in_bytes_of)
  ultimately show ?thesis using c_string_append_zero [of "bytes_of ''tun0''" "replicate 11 0"] by simp
qed

lemma length_tun0 [simp]: "length tun0 = 16"
  by (simp add: tun0_def)

lemma strcpy_string:
  assumes "c_string name = Some s" and "length name \<le> length dev"
  obtains dev' where "write_bytes dev 0 (s @ [0]) = Some dev'" and "c_string dev' = Some s"
proof -
  have l: "length s < length dev" using c_string_length [OF assms(1)] assms(2) by simp
  have "c_string (s @ 0 # drop (Suc (length s)) dev) = Some s"
    using c_string_no_zero [OF assms(1)] by (rule c_string_append_zero)
  then show thesis using l by (intro that) (auto simp: write_bytes_def)
qed

lemma tun0_first: "load8 tun0 0 = Some (tun0 ! 0)" "tun0 ! 0 \<noteq> 0"
  by (simp_all add: tun0_def load8_def bytes_of_def)

lemma tun0_request: "strncpy (replicate 16 0) (bytes_of ''tun0'') 16 = Some tun0"
  by (simp add: strncpy_def write_bytes_def tun0_def)

lemma vpn_setup_eq:
  assumes "length cmd = 256"
  shows "vpn_setup tun_ip cmd k =
    Sys (Open ''/dev/net/tun'') (\<lambda>r.
    if ret r < 0 then Say (Perror ''Opening /dev/net/tun'')
      (Say (Fprintf_stderr (''Error creating TUN interface'' @ nl) []) (Exit 1)) else
    Sys (Ioctl (ret r) tun0 0x1001) (\<lambda>q.
    if ret q < 0 then Say (Perror ''ioctl(TUNSETIFF)'') (Sys (Close (ret r)) (\<lambda>_.
      Say (Fprintf_stderr (''Error creating TUN interface'' @ nl) []) (Exit 1))) else
    attempt (tun_name_of q) (\<lambda>s.
    Say (Printf (''[+] TUN interface %s created'' @ nl) [CStr (string_of s)])
    (Sys (System (cmd_line ''ip addr add %s/24 dev %s'' [CStr tun_ip, CStr (string_of s)])) (\<lambda>_.
    Sys (System (cmd_line ''ip link set %s up'' [CStr (string_of s)])) (\<lambda>_.
    Say (Printf (''[+] TUN interface configured with IP %s'' @ nl) [CStr tun_ip])
    (Sys (Socket AF_INET SOCK_DGRAM 0) (\<lambda>w.
    if ret w < 0 then Say (Perror ''Socket creation failed'') (Exit 1) else k (ret r) (ret w)))))))))"
proof -
  let ?name = "\<lambda>q. take 16 (payload q) @ drop (length (take 16 (payload q))) tun0"
  let ?rest = "\<lambda>r s. Say (Printf (''[+] TUN interface %s created'' @ nl) [CStr (string_of s)])
    (Sys (System (cmd_line ''ip addr add %s/24 dev %s'' [CStr tun_ip, CStr (string_of s)])) (\<lambda>_.
    Sys (System (cmd_line ''ip link set %s up'' [CStr (string_of s)])) (\<lambda>_.
    Say (Printf (''[+] TUN interface configured with IP %s'' @ nl) [CStr tun_ip])
    (Sys (Socket AF_INET SOCK_DGRAM 0) (\<lambda>w.
    if ret w < 0 then Say (Perror ''Socket creation failed'') (Exit 1) else k (ret r) (ret w))))))"
  have w: "write_bytes tun0 0 (take 16 (payload q)) = Some (?name q)" for q :: reply
    by (simp add: write_bytes_def)
  have named: "attempt (c_string (?name q)) (\<lambda>s. attempt (write_bytes tun0 0 (s @ [0])) (\<lambda>dev.
      attempt (c_string dev) (\<lambda>name.
      Say (Printf (''[+] TUN interface %s created'' @ nl) [CStr (string_of name)])
      (attempt (snprintf cmd 256 ''ip addr add %s/24 dev %s'' [CStr tun_ip, CStr (string_of name)]) (\<lambda>cmd.
      attempt (c_string cmd) (\<lambda>line.
      Sys (System line) (\<lambda>_.
      attempt (snprintf cmd 256 ''ip link set %s up'' [CStr (string_of name)]) (\<lambda>cmd.
      attempt (c_string cmd) (\<lambda>line.
      Sys (System line) (\<lambda>_.
      Say (Printf (''[+] TUN interface configured with IP %s'' @ nl) [CStr tun_ip])
      (Sys (Socket AF_INET SOCK_DGRAM 0) (\<lambda>w.
      if ret w < 0 then Say (Perror ''Socket creation failed'') (Exit 1) else k (ret r) (ret w))))))))))))) =
    attempt (tun_name_of q) (?rest r)" for q r :: reply
  proof (cases "c_string (?name q)")
    case None
    then show ?thesis by (simp add: tun_name_of_def)
  next
    case (Some s)
    obtain dev where d: "write_bytes tun0 0 (s @ [0]) = Some dev" "c_string dev = Some s"
      by (rule strcpy_string [OF Some, of tun0]) simp_all
    obtain c1 where c1: "snprintf cmd 256 ''ip addr add %s/24 dev %s'' [CStr tun_ip, CStr (string_of s)] = Some c1"
      "length c1 = 256" "c_string c1 = Some (cmd_line ''ip addr add %s/24 dev %s'' [CStr tun_ip, CStr (string_of s)])"
      by (rule snprintf_cmd [OF assms])
    obtain c2 where c2: "snprintf c1 256 ''ip link set %s up'' [CStr (string_of s)] = Some c2"
      "c_string c2 = Some (cmd_line ''ip link set %s up'' [CStr (string_of s)])"
      by (rule snprintf_cmd [OF c1(2)])
    show ?thesis by (simp only: tun_name_of_def Some d c1 c2 attempt_simps)
  qed
  show ?thesis
    unfolding vpn_setup_def tun_alloc_def
    by (simp only: tun0_first c_string_tun0 tun0_request w Let_def named attempt_simps option.case
        not_False_eq_True if_True if_False refl cong: if_cong)
qed

section \<open>The packets of the interface\<close>

text \<open>The interface is the descriptor that \<open>open\<close> returned. The packets read from a descriptor and
  those that the program asked the system to write to it:\<close>

abbreviation interface :: "event list \<Rightarrow> int" where
  "interface \<equiv> first_fd is_Open"

definition tun_in :: "int \<Rightarrow> event list \<Rightarrow> bytes list" where
  "tun_in fd tr = concat (map (\<lambda>(c, r). case c of
      Read fd' n \<Rightarrow> if fd' \<noteq> fd \<or> ret r < 0 then [] else [received n r] | _ \<Rightarrow> []) (calls_of tr))"

definition tun_out :: "int \<Rightarrow> event list \<Rightarrow> bytes list" where
  "tun_out fd tr = concat (map (\<lambda>(c, r). case c of
      Write fd' bs \<Rightarrow> if fd' = fd then [bs] else [] | _ \<Rightarrow> []) (calls_of tr))"

text \<open>The packets of the interface, and that packets and datagrams are on no other descriptors.\<close>

abbreviation packets_in :: "event list \<Rightarrow> bytes list" where
  "packets_in tr \<equiv> tun_in (interface tr) tr"

abbreviation packets_out :: "event list \<Rightarrow> bytes list" where
  "packets_out tr \<equiv> tun_out (interface tr) tr"

abbreviation well_directed :: "event list \<Rightarrow> bool" where
  "well_directed tr \<equiv> all_io (interface tr) (the_socket tr) tr"

lemma tun_simps [simp]:
  "tun_in fd [] = []" "tun_in fd (Shown x # tr) = tun_in fd tr" "tun_in fd (tr @ tr') = tun_in fd tr @ tun_in fd tr'"
  "tun_in fd (Called c r # tr) =
     (case c of Read fd' n \<Rightarrow> if fd' \<noteq> fd \<or> ret r < 0 then [] else [received n r] | _ \<Rightarrow> []) @ tun_in fd tr"
  "tun_out fd [] = []" "tun_out fd (Shown x # tr) = tun_out fd tr" "tun_out fd (tr @ tr') = tun_out fd tr @ tun_out fd tr'"
  "tun_out fd (Called c r # tr) = (case c of Write fd' bs \<Rightarrow> if fd' = fd then [bs] else [] | _ \<Rightarrow> []) @ tun_out fd tr"
  by (simp_all add: tun_in_def tun_out_def)

definition pending_write :: "int \<Rightarrow> 's stop \<Rightarrow> bytes list" where
  "pending_write fd st = (case st of Waiting (Write fd' bs) \<Rightarrow> if fd' = fd then [bs] else [] | _ \<Rightarrow> [])"

lemma pending_write_simps [simp]:
  "pending_write fd (Exited n) = []" "pending_write fd Crashed = []" "pending_write fd (Looped s) = []"
  "pending_write fd (Waiting c) = (case c of Write fd' bs \<Rightarrow> if fd' = fd then [bs] else [] | _ \<Rightarrow> [])"
  by (simp_all add: pending_write_def)

text \<open>
  Where the system breaks its contract: a descriptor outside the range of \<open>fd_set\<close>, or an
  interface name without terminator.
\<close>

definition env_fault :: "event list \<Rightarrow> bool" where
  "env_fault tr \<longleftrightarrow> (\<exists>fd\<in>set (opened tr). 1024 \<le> fd) \<or>
     list_ex (\<lambda>(c, r). case c of Ioctl fd name flags \<Rightarrow> tun_name_of r = None | _ \<Rightarrow> False) (calls_of tr)"

section \<open>The rounds in closed form\<close>

definition stored :: "vpn_vars \<Rightarrow> reply \<Rightarrow> vpn_vars" where
  "stored v r = v\<lparr>vpn_buffer := received 2048 r @ drop (length (received 2048 r)) (vpn_buffer v)\<rparr>"

definition crypted :: "vpn_vars \<Rightarrow> nat \<Rightarrow> vpn_vars" where
  "crypted v n = v\<lparr>vpn_buffer := xor_key (take n (vpn_buffer v)) @ drop n (vpn_buffer v)\<rparr>"

lemma vars_simps [simp]:
  "tun_fd (stored v r) = tun_fd v" "sock_fd (stored v r) = sock_fd v" "vpn_peer (stored v r) = vpn_peer v"
  "tun_fd (crypted v n) = tun_fd v" "sock_fd (crypted v n) = sock_fd v" "vpn_peer (crypted v n) = vpn_peer v"
  "length (vpn_buffer v) = 2048 \<Longrightarrow> length (vpn_buffer (stored v r)) = 2048"
  "length (vpn_buffer (crypted v n)) = length (vpn_buffer v)"
  using received_length [of 2048 r] by (simp_all add: stored_def crypted_def)

lemma stored_prefix:
  "length (vpn_buffer v) = 2048 \<Longrightarrow> take (length (received 2048 r)) (vpn_buffer (stored v r)) = received 2048 r"
  by (simp add: stored_def)

lemma crypt_stored:
  assumes "length (vpn_buffer v) = 2048" and "n = int (length (received 2048 r))"
  shows "simple_encrypt (vpn_buffer (stored v r)) n shared_key = Some (vpn_buffer (crypted (stored v r) (length (received 2048 r))))"
    and "bytes_at (vpn_buffer (crypted (stored v r) (length (received 2048 r)))) n = Some (xor_key (received 2048 r))"
  using assms received_length [of 2048 r] simple_encrypt_eq [of n "vpn_buffer (stored v r)"]
  by (simp_all add: crypted_def stored_prefix bytes_at_def)

lemma store_in_buffer:
  "length (vpn_buffer v) = 2048 \<Longrightarrow> write_bytes (vpn_buffer v) 0 (received 2048 r) = Some (vpn_buffer (stored v r))"
  by (simp add: store_received stored_def)

lemma update_vpn_buffer [simp]:
  "v\<lparr>vpn_buffer := vpn_buffer (stored v r)\<rparr> = stored v r" "v\<lparr>vpn_buffer := vpn_buffer (crypted v n)\<rparr> = crypted v n"
  "v\<lparr>vpn_buffer := vpn_buffer (crypted (stored v r) n)\<rparr> = crypted (stored v r) n"
  by (simp_all add: stored_def crypted_def)

definition write_tun_tail :: "vpn_vars \<Rightarrow> reply \<Rightarrow> vpn_vars prog" where
  "write_tun_tail v r =
     Sys (Write (tun_fd v) (xor_key (received 2048 r))) (\<lambda>w.
     if ret w < 0 then Say (Perror ''Writing to TUN'') (Again (crypted (stored v r) (length (received 2048 r))))
     else Say (Printf (''[NET'' @ arrow @ ''TUN] Decrypted and written to TUN'' @ nl) [])
       (Again (crypted (stored v r) (length (received 2048 r)))))"

lemma vpn_write_tun_eq:
  assumes "length (vpn_buffer v) = 2048"
  shows "vpn_write_tun (stored v r) (int (length (received 2048 r))) = write_tun_tail v r"
  using crypt_stored [OF assms refl, of r]
  by (simp add: vpn_write_tun_def write_tun_tail_def Let_def cong: if_cong)

lemma server_net_eq:
  assumes "length (vpn_buffer v) = 2048"
  shows "server_net e v fds =
    (if sock_fd v \<in> set fds then
       Sys (Recvfrom (sock_fd v) 2048) (\<lambda>r.
       if ret r < 0 then Say (Perror ''Receiving from socket'') (Again (stored v r))
       else Say (Printf (''[NET'' @ arrow @ ''TUN] Received %d bytes from %s:%d'' @ nl)
              [CInt (int (length (received 2048 r))), CStr (inet_ntoa e (sin_addr (peer r))), of_u (ntoh e (sin_port (peer r)))])
         (write_tun_tail (v\<lparr>vpn_peer := peer r\<rparr>) r))
     else Again v)"
proof -
  have "(stored v r)\<lparr>vpn_peer := peer r\<rparr> = stored (v\<lparr>vpn_peer := peer r\<rparr>) r" for r :: reply
    by (simp add: stored_def)
  then show ?thesis
    using assms vpn_write_tun_eq
    by (auto simp: server_net_def store_in_buffer received_len_def Let_def fun_eq_iff)
qed

lemma client_net_eq:
  assumes "length (vpn_buffer v) = 2048"
  shows "client_net v fds =
    (if sock_fd v \<in> set fds then
       Sys (Recvfrom (sock_fd v) 2048) (\<lambda>r.
       if ret r < 0 then Say (Perror ''Receiving from socket'') (Again (stored v r))
       else Say (Printf (''[NET'' @ arrow @ ''TUN] Received %d bytes from server'' @ nl)
              [CInt (int (length (received 2048 r)))])
         (write_tun_tail v r))
     else Again v)"
  using assms vpn_write_tun_eq
  by (auto simp: client_net_def store_in_buffer received_len_def Let_def fun_eq_iff)

definition select_head :: "vpn_vars \<Rightarrow> (int list \<Rightarrow> vpn_vars prog) \<Rightarrow> vpn_vars prog" where
  "select_head v k =
     (if tun_fd v < 1024 \<and> sock_fd v < 1024 then
        Sys (Select (max (tun_fd v) (sock_fd v) + 1) [tun_fd v, sock_fd v]) (\<lambda>sel.
        if ret sel < 0 then Say (Perror ''Select failed'') (vpn_cleanup v) else k (ready sel))
      else Undefined)"

lemma vpn_select_eq:
  "0 \<le> tun_fd v \<Longrightarrow> 0 \<le> sock_fd v \<Longrightarrow> vpn_select v (\<lambda>sel. k (ready sel)) = select_head v k"
  by (auto simp: vpn_select_def select_head_def fd_set_add_def max_def Let_def)

lemma server_round_eq:
  assumes "length (vpn_buffer v) = 2048" and "0 \<le> tun_fd v" and "0 \<le> sock_fd v"
  shows "server_round e v = select_head v (\<lambda>fds.
    if tun_fd v \<in> set fds then
      Sys (Read (tun_fd v) 2048) (\<lambda>r.
      if ret r < 0 then Say (Perror ''Reading from TUN'') (Again (stored v r))
      else Say (Printf (''[TUN'' @ arrow @ ''NET] Read %d bytes from TUN'' @ nl) [CInt (int (length (received 2048 r)))])
        (Say (Printf (''[TUN'' @ arrow @ ''NET] Encrypted and ready to send'' @ nl) [])
        (server_net e (crypted (stored v r) (length (received 2048 r))) fds)))
    else server_net e v fds)"
  using crypt_stored [OF assms(1) refl]
  by (subst vpn_select_eq [OF assms(2,3), symmetric])
     (simp add: server_round_def store_in_buffer [OF assms(1)] received_len_simps Let_def not_less fun_eq_iff cong: if_cong)

lemma client_round_eq:
  assumes "length (vpn_buffer v) = 2048" and "0 \<le> tun_fd v" and "0 \<le> sock_fd v"
  shows "client_round v = select_head v (\<lambda>fds.
    if tun_fd v \<in> set fds then
      Sys (Read (tun_fd v) 2048) (\<lambda>r.
      if ret r < 0 then Say (Perror ''Reading from TUN'') (Again (stored v r))
      else Say (Printf (''[TUN'' @ arrow @ ''NET] Read %d bytes from TUN'' @ nl) [CInt (int (length (received 2048 r)))])
        (let v' = crypted (stored v r) (length (received 2048 r)) in
         Sys (Sendto (sock_fd v) (xor_key (received 2048 r)) (vpn_peer v)) (\<lambda>s.
         if ret s < 0 then Say (Perror ''Sending to server'') (Again v')
         else Say (Printf (''[TUN'' @ arrow @ ''NET] Encrypted and sent to server'' @ nl) [])
           (client_net v' fds))))
    else client_net v fds)"
  using crypt_stored [OF assms(1) refl]
  by (subst vpn_select_eq [OF assms(2,3), symmetric])
     (simp add: client_round_def store_in_buffer [OF assms(1)] received_len_simps Let_def not_less fun_eq_iff cong: if_cong)

section \<open>The loops\<close>

definition loop_state :: "vpn_vars \<Rightarrow> event list \<Rightarrow> bool" where
  "loop_state v h \<longleftrightarrow> length (vpn_buffer v) = 2048 \<and> 0 \<le> tun_fd v \<and> 0 \<le> sock_fd v \<and>
     opened h = [tun_fd v, sock_fd v] \<and> closed h = [] \<and>
     interface h = tun_fd v \<and> the_socket h = sock_fd v \<and> all_io (tun_fd v) (sock_fd v) h \<and>
     map (xor_key \<circ> fst) (datagrams_in h) = tun_out (tun_fd v) h"

definition loop_stop :: "event list \<Rightarrow> vpn_vars stop \<Rightarrow> bool" where
  "loop_stop tr st \<longleftrightarrow> (st = Crashed \<longrightarrow> env_fault tr) \<and> (st = Exited 0 \<longrightarrow> closed tr = opened tr) \<and>
     well_directed tr \<and> stop_io (interface tr) (the_socket tr) st \<and>
     map (xor_key \<circ> fst) (datagrams_in tr) = packets_out tr @ pending_write (interface tr) st"

text \<open>The server sends no datagram, the client sends one for every packet of its interface.\<close>

definition server_inv :: "vpn_vars \<Rightarrow> event list \<Rightarrow> bool" where
  "server_inv v h \<longleftrightarrow> loop_state v h \<and> datagrams_out h = []"

definition server_ok :: "event list \<Rightarrow> vpn_vars stop \<Rightarrow> bool" where
  "server_ok tr st \<longleftrightarrow> loop_stop tr st \<and> datagrams_out tr = [] \<and> pending_datagram st = []"

definition client_inv :: "sockaddr_in \<Rightarrow> vpn_vars \<Rightarrow> event list \<Rightarrow> bool" where
  "client_inv a v h \<longleftrightarrow> loop_state v h \<and> vpn_peer v = a \<and>
     datagrams_out h = map (\<lambda>p. (xor_key p, a)) (tun_in (tun_fd v) h)"

definition client_ok :: "sockaddr_in \<Rightarrow> event list \<Rightarrow> vpn_vars stop \<Rightarrow> bool" where
  "client_ok a tr st \<longleftrightarrow> loop_stop tr st \<and>
     map (\<lambda>p. (xor_key p, a)) (packets_in tr) = datagrams_out tr @ pending_datagram st"

lemmas loop_defs = loop_state_def loop_stop_def server_inv_def server_ok_def client_inv_def client_ok_def

lemma select_head_inv:
  assumes "loop_state v h" and "run (select_head v k) rs = (tr, rest, st)"
    and stop: "\<And>tr st. loop_stop (h @ tr) st \<Longrightarrow> datagrams_out tr = [] \<Longrightarrow> tun_in (tun_fd v) tr = [] \<Longrightarrow> pending_datagram st = [] \<Longrightarrow>
      (\<forall>s. st \<noteq> Looped s) \<Longrightarrow> P tr st"
    and cont: "\<And>sel rs' tr'. rs = sel # rs' \<Longrightarrow> run (k (ready sel)) rs' = (tr', rest, st) \<Longrightarrow>
      P (Called (Select (max (tun_fd v) (sock_fd v) + 1) [tun_fd v, sock_fd v]) sel # tr') st"
  shows "P tr st"
proof (cases "tun_fd v < 1024 \<and> sock_fd v < 1024")
  case False
  then have "tr = []" "st = Crashed" using assms(2) by (auto simp: select_head_def)
  moreover have "loop_stop (h @ []) (Crashed :: vpn_vars stop)"
    using assms(1) False by (auto simp: loop_defs env_fault_def)
  ultimately show ?thesis using stop [of "[]" Crashed] by simp
next
  case True
  then have s: "select_head v k = Sys (Select (max (tun_fd v) (sock_fd v) + 1) [tun_fd v, sock_fd v]) (\<lambda>sel.
      if ret sel < 0 then Say (Perror ''Select failed'') (vpn_cleanup v) else k (ready sel))"
    by (simp add: select_head_def)
  show ?thesis
  proof (cases rs)
    case Nil
    then have "tr = []" "st = Waiting (Select (max (tun_fd v) (sock_fd v) + 1) [tun_fd v, sock_fd v])"
      using assms(2) by (auto simp: s)
    then show ?thesis using assms(1) by (auto intro!: stop simp: loop_defs)
  next
    case (Cons sel rs')
    show ?thesis
    proof (cases "ret sel < 0")
      case True
      then show ?thesis
        using assms(1,2) Cons
        by (auto intro!: stop simp: s vpn_cleanup_def loop_defs split: list.splits)
    next
      case False
      then obtain tr' where "run (k (ready sel)) rs' = (tr', rest, st)"
        and "tr = Called (Select (max (tun_fd v) (sock_fd v) + 1) [tun_fd v, sock_fd v]) sel # tr'"
        using assms(2) Cons by (auto simp: s split: prod.splits)
      then show ?thesis using cont Cons by simp
    qed
  qed
qed

lemma server_net_inv:
  assumes "server_inv v h" and "run (server_net e v fds) rs = (tr, rest, st)"
  shows "holds_at server_inv server_ok (h @ tr) st"
proof -
  have "length (vpn_buffer v) = 2048" using assms(1) by (simp add: loop_defs)
  note eq = server_net_eq [OF this, of e fds]
  show ?thesis
    using assms unfolding eq
    by (auto simp: loop_defs write_tun_tail_def split: list.splits if_splits prod.splits)
qed

lemma client_net_inv:
  assumes "client_inv a v h" and "run (client_net v fds) rs = (tr, rest, st)"
  shows "holds_at (client_inv a) (client_ok a) (h @ tr) st"
proof -
  have "length (vpn_buffer v) = 2048" using assms(1) by (simp add: loop_defs)
  note eq = client_net_eq [OF this, of fds]
  show ?thesis
    using assms unfolding eq
    by (auto simp: loop_defs write_tun_tail_def split: list.splits if_splits prod.splits)
qed

text \<open>The branch of both rounds that reads a packet from the interface.\<close>

lemma tun_branch_inv:
  assumes "run (if tun_fd v \<in> set fds then
      Sys (Read (tun_fd v) 2048) (\<lambda>r.
      if ret r < 0 then Say (Perror ''Reading from TUN'') (Again (stored v r))
      else Say (Printf (''[TUN'' @ arrow @ ''NET] Read %d bytes from TUN'' @ nl) [CInt (int (length (received 2048 r)))]) (m r))
    else k) rs = (tr, rest, st)"
    and skip: "run k rs = (tr, rest, st) \<Longrightarrow> P tr st"
    and wait: "P [] (Waiting (Read (tun_fd v) 2048))"
    and fail: "\<And>r. ret r < 0 \<Longrightarrow>
      P [Called (Read (tun_fd v) 2048) r, Shown (Perror ''Reading from TUN'')] (Looped (stored v r))"
    and data: "\<And>r rs' tr'. \<not> ret r < 0 \<Longrightarrow> run (m r) rs' = (tr', rest, st) \<Longrightarrow>
      P ([Called (Read (tun_fd v) 2048) r, Shown (Printf (''[TUN'' @ arrow @ ''NET] Read %d bytes from TUN'' @ nl)
          [CInt (int (length (received 2048 r)))])] @ tr') st"
  shows "P tr st"
proof (cases "tun_fd v \<in> set fds")
  case False
  then show ?thesis using assms(1) by (intro skip) simp
next
  case True
  note r = assms(1) [simplified True if_True]
  show ?thesis
  proof (cases rs)
    case Nil
    then show ?thesis using r wait by auto
  next
    case (Cons q rs')
    then show ?thesis
      using r fail [of q] data [of q rs'] by (cases "ret q < 0") (auto split: prod.splits)
  qed
qed

lemma server_round_inv:
  assumes i: "server_inv v h" and r: "run (server_round e v) rs = (tr, rest, st)"
  shows "holds_at server_inv server_ok (h @ tr) st"
proof -
  have v: "length (vpn_buffer v) = 2048" "0 \<le> tun_fd v" "0 \<le> sock_fd v" and l: "loop_state v h"
    using i by (simp_all add: loop_defs)
  show ?thesis
  proof (rule select_head_inv [OF l r [unfolded server_round_eq [OF v]]], goal_cases)
    case (1 tr st)
    then show ?case using i by (cases st) (auto simp: server_inv_def server_ok_def)
  next
    case (2 sel rs' tr')
    let ?c = "Called (Select (max (tun_fd v) (sock_fd v) + 1) [tun_fd v, sock_fd v]) sel"
    from 2(2) show ?case
    proof (rule tun_branch_inv)
      have "server_inv v (h @ [?c])" using i by (simp add: loop_defs)
      moreover assume "run (server_net e v (ready sel)) rs' = (tr', rest, st)"
      ultimately show ?thesis using server_net_inv by fastforce
    next
      fix r rs2 tr2
      let ?v = "crypted (stored v r) (length (received 2048 r))"
      let ?o = "[?c, Called (Read (tun_fd v) 2048) r,
        Shown (Printf (''[TUN'' @ arrow @ ''NET] Read %d bytes from TUN'' @ nl) [CInt (int (length (received 2048 r)))]),
        Shown (Printf (''[TUN'' @ arrow @ ''NET] Encrypted and ready to send'' @ nl) [])]"
      assume "run (Say (Printf (''[TUN'' @ arrow @ ''NET] Encrypted and ready to send'' @ nl) [])
        (server_net e ?v (ready sel))) rs2 = (tr2, rest, st)"
      then obtain tr3 where t: "run (server_net e ?v (ready sel)) rs2 = (tr3, rest, st)"
        and tr2: "tr2 = Shown (Printf (''[TUN'' @ arrow @ ''NET] Encrypted and ready to send'' @ nl) []) # tr3"
        by (auto split: prod.splits)
      have "server_inv ?v (h @ ?o)" using i by (simp add: loop_defs)
      from server_net_inv [OF this t]
      show "holds_at server_inv server_ok (h @ ?c # [Called (Read (tun_fd v) 2048) r,
        Shown (Printf (''[TUN'' @ arrow @ ''NET] Read %d bytes from TUN'' @ nl) [CInt (int (length (received 2048 r)))])] @ tr2) st"
        by (simp add: tr2)
    qed (use i in \<open>auto simp: loop_defs\<close>)
  qed
qed

lemma client_round_inv:
  assumes i: "client_inv a v h" and r: "run (client_round v) rs = (tr, rest, st)"
  shows "holds_at (client_inv a) (client_ok a) (h @ tr) st"
proof -
  have v: "length (vpn_buffer v) = 2048" "0 \<le> tun_fd v" "0 \<le> sock_fd v" and l: "loop_state v h"
    using i by (simp_all add: loop_defs)
  show ?thesis
  proof (rule select_head_inv [OF l r [unfolded client_round_eq [OF v]]], goal_cases)
    case (1 tr st)
    then show ?case using i by (cases st) (auto simp: client_inv_def client_ok_def loop_state_def)
  next
    case (2 sel rs' tr')
    let ?c = "Called (Select (max (tun_fd v) (sock_fd v) + 1) [tun_fd v, sock_fd v]) sel"
    from 2(2) show ?case
    proof (rule tun_branch_inv)
      have "client_inv a v (h @ [?c])" using i by (simp add: loop_defs)
      moreover assume "run (client_net v (ready sel)) rs' = (tr', rest, st)"
      ultimately show ?thesis using client_net_inv by fastforce
    next
      fix r rs2 tr2
      let ?v = "crypted (stored v r) (length (received 2048 r))"
      let ?o = "[?c, Called (Read (tun_fd v) 2048) r,
        Shown (Printf (''[TUN'' @ arrow @ ''NET] Read %d bytes from TUN'' @ nl) [CInt (int (length (received 2048 r)))])]"
      let ?s = "Sendto (sock_fd v) (xor_key (received 2048 r)) (vpn_peer v)"
      assume q: "\<not> ret r < 0" and "run (let v' = ?v in Sys ?s (\<lambda>s.
         if ret s < 0 then Say (Perror ''Sending to server'') (Again v')
         else Say (Printf (''[TUN'' @ arrow @ ''NET] Encrypted and sent to server'' @ nl) [])
           (client_net v' (ready sel)))) rs2 = (tr2, rest, st)"
      then have "rs2 = [] \<and> tr2 = [] \<and> st = Waiting ?s \<or>
        (\<exists>s. tr2 = [Called ?s s, Shown (Perror ''Sending to server'')] \<and> st = Looped ?v) \<or>
        (\<exists>s rs3 tr3. run (client_net ?v (ready sel)) rs3 = (tr3, rest, st) \<and>
          tr2 = [Called ?s s, Shown (Printf (''[TUN'' @ arrow @ ''NET] Encrypted and sent to server'' @ nl) [])] @ tr3)"
        by (cases rs2) (auto simp: Let_def split: prod.splits if_splits)
      then show "holds_at (client_inv a) (client_ok a) (h @ ?c # [Called (Read (tun_fd v) 2048) r,
        Shown (Printf (''[TUN'' @ arrow @ ''NET] Read %d bytes from TUN'' @ nl) [CInt (int (length (received 2048 r)))])] @ tr2) st"
      proof (elim disjE exE conjE)
        fix s rs3 tr3
        let ?m = "[Called ?s s, Shown (Printf (''[TUN'' @ arrow @ ''NET] Encrypted and sent to server'' @ nl) [])]"
        assume t: "run (client_net ?v (ready sel)) rs3 = (tr3, rest, st)" and tr2: "tr2 = ?m @ tr3"
        have "client_inv a ?v (h @ ?o @ ?m)" using i q by (simp add: loop_defs)
        from client_net_inv [OF this t] show ?thesis by (simp add: tr2)
      qed (use i q in \<open>auto simp: loop_defs\<close>)
    qed (use i in \<open>auto simp: loop_defs\<close>)
  qed
qed

lemma server_round_consumes: "run (server_round e v) rs = (tr, rest, Looped v') \<Longrightarrow> length rest < length rs"
  by (auto simp: server_round_def vpn_select_def attempt_def Let_def intro: run_Sys_consumes split: option.splits)

lemma client_round_consumes: "run (client_round v) rs = (tr, rest, Looped v') \<Longrightarrow> length rest < length rs"
  by (auto simp: client_round_def vpn_select_def attempt_def Let_def intro: run_Sys_consumes split: option.splits)

interpretation vpn_server: loop_invariant "server_round e" server_inv server_ok for e
  by unfold_locales (rule server_round_consumes server_round_inv; assumption)+

interpretation vpn_client: loop_invariant client_round "client_inv a" "client_ok a" for a
  by unfold_locales (rule client_round_consumes client_round_inv; assumption)+


section \<open>The set-up leads into the loop\<close>

lemma env_fault_simps [simp]:
  "env_fault (Called (Ioctl fd name flags) r # tr) \<longleftrightarrow> tun_name_of r = None \<or> env_fault tr"
  "env_fault (Called (Open path) r # tr) \<longleftrightarrow> 1024 \<le> ret r \<or> env_fault tr"
  by (auto simp: env_fault_def)

lemma server_first:
  assumes "length cmd = 256" and "length buf = 2048" and "run (run_server e tun_ip cmd buf) rs = (tr, rest, st)"
  shows "holds_at server_inv server_ok tr st"
  using assms(2,3) unfolding run_server_def vpn_setup_eq [OF assms(1)]
  by (auto simp: loop_defs attempt_def not_less split: list.splits if_splits option.splits prod.splits)

lemma client_first:
  assumes "length cmd = 256" and "length buf = 2048" and "inet_pton e server_ip = Some a"
    and "run (run_client e tun_ip server_ip cmd buf) rs = (tr, rest, st)"
  shows "holds_at (client_inv \<lparr>sin_port = hton e 5555, sin_addr = a\<rparr>) (client_ok \<lparr>sin_port = hton e 5555, sin_addr = a\<rparr>) tr st"
  using assms(2,4) unfolding run_client_def vpn_setup_eq [OF assms(1)] assms(3)
  by (auto simp: loop_defs attempt_def not_less Let_def split: list.splits if_splits option.splits prod.splits)


lemma server_exec:
  assumes "length cmd = 256" and "length buf = 2048" and "3 \<le> length argv" and "argv ! 1 = ''server''"
    and e: "exec (vpn_round e argv) (vpn_main e cmd buf argv) rs = (tr, st)"
  shows "server_ok tr st"
  using e assms(3,4) unfolding vpn_round_def vpn_main_def
  by (intro vpn_server.exec_ok [OF server_first [OF assms(1,2)]]) simp_all

lemma client_exec:
  assumes "length cmd = 256" and "length buf = 2048" and "4 \<le> length argv" and "argv ! 1 = ''client''"
    and a: "inet_pton e (argv ! 3) = Some a"
    and e: "exec (vpn_round e argv) (vpn_main e cmd buf argv) rs = (tr, st)"
  shows "client_ok \<lparr>sin_port = hton e 5555, sin_addr = a\<rparr> tr st"
  using e assms(3,4) unfolding vpn_round_def vpn_main_def
  by (intro vpn_client.exec_ok [OF client_first [OF assms(1,2) a]]) simp_all

text \<open>What the eavesdropper of a client sees: the \<open>k\<close>-th datagram is the \<open>k\<close>-th packet, encrypted.\<close>

lemma client_datagram:
  assumes ok: "client_ok a tr st" and "k < length (datagrams_out tr)"
  shows "datagrams_out tr ! k = (xor_key (packets_in tr ! k), a)" and "k < length (packets_in tr)"
proof -
  have d: "map (\<lambda>p. (xor_key p, a)) (packets_in tr) = datagrams_out tr @ pending_datagram st"
    using ok by (simp add: client_ok_def)
  then have "length (packets_in tr) = length (datagrams_out tr @ pending_datagram st)" by (metis length_map)
  then show k: "k < length (packets_in tr)" using assms(2) by simp
  have "datagrams_out tr ! k = map (\<lambda>p. (xor_key p, a)) (packets_in tr) ! k"
    using assms(2) by (simp add: d nth_append)
  then show "datagrams_out tr ! k = (xor_key (packets_in tr ! k), a)" using k by simp
qed

lemma encrypt_loop_outside:
  "i \<le> length dat \<Longrightarrow> length dat < i + n \<Longrightarrow> encrypt_loop dat shared_key i n = None"
proof (induction n arbitrary: dat i)
  case (Suc n)
  show ?case
  proof (cases "i < length dat")
    case True
    have "encrypt_loop dat' shared_key (i + 1) n = None" if "length dat' = length dat" for dat'
      by (rule Suc.IH) (use Suc.prems True that in simp_all)
    then show ?thesis using True by (simp add: load8_def store8_def write_bytes_def)
  qed (simp add: load8_def)
qed simp

lemma simple_encrypt_cases:
  "simple_encrypt dat n shared_key =
     (if nat n \<le> length dat then Some (xor_key (take (nat n) dat) @ drop (nat n) dat) else None)"
  using simple_encrypt_eq [of n dat] encrypt_loop_outside [of 0 dat "nat n"]
  by (cases "0 \<le> n") (auto simp: simple_encrypt_def xor_key_def)

lemma xor_bytes_commute: "length xs = length ys \<Longrightarrow> xor_bytes xs ys = xor_bytes ys xs"
  by (induction xs ys rule: list_induct2) (auto simp: xor.commute)

lemma take_key_stream: "take 16 (key_stream n) = take n shared_key"
proof (rule nth_equalityI)
  show "length (take 16 (key_stream n)) = length (take n shared_key)" by (simp add: key_stream_def)
  show "take 16 (key_stream n) ! i = take n shared_key ! i" if "i < length (take 16 (key_stream n))" for i
    using that by (simp add: key_stream_def)
qed

lemma known_packet_reveals_key: "take 16 (xor_bytes (xor_key bs) bs) = take (length bs) shared_key"
proof -
  let ?s = "key_stream (length bs)"
  have l: "length ?s = length bs" by (simp add: key_stream_def)
  have "xor_bytes (xor_key bs) bs = xor_bytes (xor_bytes ?s bs) bs"
    using l by (simp add: xor_key_def xor_bytes_commute)
  then show ?thesis using l by (simp add: xor_bytes_cancel take_key_stream)
qed

section \<open>Sample executions\<close>

text \<open>Replies for a set-up that succeeds.\<close>

definition vpn_ready :: "int \<Rightarrow> int \<Rightarrow> reply list" where
  "vpn_ready tfd sfd =
     [reply_ret tfd, (reply_ret 0)\<lparr>payload := tun0\<rparr>, reply_ret 0, reply_ret 0, reply_ret sfd]"

lemma tun_name_of_tun0: "payload r = tun0 \<Longrightarrow> tun_name_of r = Some (bytes_of ''tun0'')"
  by (simp add: tun_name_of_def c_string_tun0)

definition vpn_client_args :: "string list" where
  "vpn_client_args = [''vpn'', ''client'', ''10.8.0.2'', ''127.0.0.1'']"

definition vpn_server_args :: "string list" where
  "vpn_server_args = [''vpn'', ''server'', ''10.8.0.1'']"

lemma vpn_args [simp]:
  "length vpn_client_args = 4" "vpn_client_args ! Suc 0 = ''client''" "vpn_client_args ! 3 = ''127.0.0.1''"
  "length vpn_server_args = 3" "vpn_server_args ! Suc 0 = ''server''"
  by (simp_all add: vpn_client_args_def vpn_server_args_def)

definition sample_client_replies :: "reply list" where
  "sample_client_replies = vpn_ready 3 4 @
     [reply_ready [3], reply_data [1, 2] \<lparr>sin_port = 0, sin_addr = 0\<rparr>, reply_ret 2,
      reply_ready [3], reply_data [7, 9] \<lparr>sin_port = 0, sin_addr = 0\<rparr>, reply_ret 2]"

definition sample_server_replies :: "reply list" where
  "sample_server_replies = vpn_ready 3 4 @
     [reply_ret 0, reply_ready [4], reply_data (xor_key [7, 9]) \<lparr>sin_port = 0, sin_addr = 0\<rparr>, reply_ret 2]"

lemma sample_client_run:
  "\<exists>tr. exec (vpn_round Little vpn_client_args)
      (vpn_main Little (replicate 256 0) (replicate 2048 0) vpn_client_args)
      sample_client_replies =
      (tr, Waiting (Select 5 [3, 4])) \<and>
    packets_in tr = [[1, 2], [7, 9]] \<and> length (datagrams_out tr) = 2 \<and> datagrams_in tr = [] \<and>
    map fst (datagrams_out tr) = [xor_key [1, 2], xor_key [7, 9]]"
  by (simp add: exec_def vpn_main_def vpn_round_def run_client_def vpn_setup_eq sample_client_replies_def vpn_ready_def tun_name_of_tun0
      client_round_eq select_head_def client_net_eq inet_pton_localhost Let_def)

lemma sample_server_run:
  "\<exists>tr. exec (vpn_round Big vpn_server_args)
      (vpn_main Big (replicate 256 0) (replicate 2048 0) vpn_server_args)
      sample_server_replies =
      (tr, Waiting (Select 5 [3, 4])) \<and>
    map fst (datagrams_in tr) = [xor_key [7, 9]]"
  by (simp add: exec_def vpn_main_def vpn_round_def run_server_def vpn_setup_eq sample_server_replies_def vpn_ready_def tun_name_of_tun0
      server_round_eq select_head_def server_net_eq write_tun_tail_def Let_def)

section \<open>Properties\<close>

text \<open>Encrypting twice gives the data back. For every buffer and every length, the second
  \<open>simple_encrypt\<close> restores what the first one changed; memory outside the buffer is accessed
  exactly when the length exceeds it, and a negative length changes nothing.\<close>

lemma simple_encrypt_twice:
  "do { d \<leftarrow> simple_encrypt dat n shared_key; simple_encrypt d n shared_key } =
     (if nat n \<le> length dat then Some dat else None)"
  by (simp add: simple_encrypt_cases vpn_cipher.crypt_crypt)

text \<open>C12: the server writes to its interface exactly what it receives, decrypted, in order and
  packet by packet, and sends nothing to any peer: a packet that it reads from its interface is
  encrypted and then dropped. All packets are read from and written to the descriptor of the
  interface and all datagrams received on that of the socket. For every sequence of replies of
  the system, an undefined step needs a descriptor of 1024 or more or an interface name without
  terminator, and when the server ends normally both descriptors are closed once.\<close>

theorem vpn_server_delivers_and_never_sends:
  assumes "length cmd = 256" and "length buf = 2048" and "3 \<le> length argv" and "argv ! 1 = ''server''"
    and "exec (vpn_round e argv) (vpn_main e cmd buf argv) rs = (tr, st)"
  shows "map (xor_key \<circ> fst) (datagrams_in tr) = packets_out tr @ pending_write (interface tr) st \<and>
    datagrams_out tr = [] \<and> pending_datagram st = [] \<and>
    well_directed tr \<and> stop_io (interface tr) (the_socket tr) st \<and>
    (st = Crashed \<longrightarrow> env_fault tr) \<and> (st = Exited 0 \<longrightarrow> closed tr = opened tr)"
  using server_exec [OF assms] by (simp add: server_ok_def loop_stop_def)

theorem vpn_server_delivers_and_never_sends_witness:
  "\<exists>tr. exec (vpn_round Big vpn_server_args)
      (vpn_main Big (replicate 256 0) (replicate 2048 0) vpn_server_args)
      sample_server_replies =
      (tr, Waiting (Select 5 [3, 4])) \<and> packets_out tr = [[7, 9]] \<and> datagrams_out tr = [] \<and> well_directed tr"
proof -
  obtain tr where e: "exec (vpn_round Big vpn_server_args)
      (vpn_main Big (replicate 256 0) (replicate 2048 0) vpn_server_args)
      sample_server_replies =
      (tr, Waiting (Select 5 [3, 4]))" and d: "map fst (datagrams_in tr) = [xor_key [7, 9]]"
    by (rule exE [OF sample_server_run]) (elim conjE, rule that)
  have "map (xor_key \<circ> fst) (datagrams_in tr) = [[7, 9]]"
    using arg_cong [OF d, of "map xor_key"] by (simp add: vpn_cipher.crypt_crypt)
  then show ?thesis using vpn_server_delivers_and_never_sends [OF _ _ _ _ e] e by simp
qed

text \<open>C13: the client sends every packet of its interface to the server's address, port 5555 in
  network order, encrypted, in order and packet by packet, and writes to the interface what it
  receives, decrypted. All packets are read from and written to the descriptor of the interface,
  all datagrams sent and received on that of the socket. For every sequence of replies of the
  system, an undefined step needs a descriptor of 1024 or more or an interface name without
  terminator, and when the client ends normally both descriptors are closed once.\<close>

theorem vpn_client_forwards_both_ways:
  assumes "length cmd = 256" and "length buf = 2048" and "4 \<le> length argv" and "argv ! 1 = ''client''"
    and "inet_pton e (argv ! 3) = Some a"
    and "exec (vpn_round e argv) (vpn_main e cmd buf argv) rs = (tr, st)"
  shows "map (\<lambda>p. (xor_key p, \<lparr>sin_port = hton e 5555, sin_addr = a\<rparr>)) (packets_in tr) = datagrams_out tr @ pending_datagram st \<and>
    map (xor_key \<circ> fst) (datagrams_in tr) = packets_out tr @ pending_write (interface tr) st \<and>
    well_directed tr \<and> stop_io (interface tr) (the_socket tr) st \<and>
    (st = Crashed \<longrightarrow> env_fault tr) \<and> (st = Exited 0 \<longrightarrow> closed tr = opened tr)"
  using client_exec [OF assms] by (simp add: client_ok_def loop_stop_def)

theorem vpn_client_forwards_both_ways_witness:
  "\<exists>tr. exec (vpn_round Little vpn_client_args)
      (vpn_main Little (replicate 256 0) (replicate 2048 0) vpn_client_args)
      sample_client_replies =
      (tr, Waiting (Select 5 [3, 4])) \<and> packets_in tr = [[1, 2], [7, 9]] \<and>
    snd ` set (datagrams_out tr) = {\<lparr>sin_port = hton Little 5555, sin_addr = dec Little [127, 0, 0, 1]\<rparr>}"
proof -
  obtain tr where e: "exec (vpn_round Little vpn_client_args)
      (vpn_main Little (replicate 256 0) (replicate 2048 0) vpn_client_args)
      sample_client_replies =
      (tr, Waiting (Select 5 [3, 4]))" and t: "packets_in tr = [[1, 2], [7, 9]]"
    by (rule exE [OF sample_client_run]) (elim conjE, rule that)
  have "datagrams_out tr = map (\<lambda>p. (xor_key p, \<lparr>sin_port = hton Little 5555, sin_addr = dec Little [127, 0, 0, 1]\<rparr>)) (packets_in tr)"
    using vpn_client_forwards_both_ways [OF _ _ _ _ _ e] by (simp add: inet_pton_localhost)
  then show ?thesis using e t by simp
qed

text \<open>C4: the tunnel. A client and a server, on hosts of any byte order, over a network that may
  lose, duplicate and reorder datagrams: when the datagrams the server received are those the
  client sent at the positions \<open>ks\<close>, the packets that the server writes to its interface are the
  packets that the client read from its interface at these positions, unchanged. The interface
  of each process is the descriptor it got from \<open>open\<close>; neither reads or writes packets on another.\<close>

theorem vpn_tunnel_is_transparent:
  assumes "length ccmd = 256" "length cbuf = 2048" "4 \<le> length cargv" "cargv ! 1 = ''client''"
    and "inet_pton ec (cargv ! 3) = Some a"
    and client: "exec (vpn_round ec cargv) (vpn_main ec ccmd cbuf cargv) crs = (ctr, cst)"
    and "length scmd = 256" "length sbuf = 2048" "3 \<le> length sargv" "sargv ! 1 = ''server''"
    and server: "exec (vpn_round es sargv) (vpn_main es scmd sbuf sargv) srs = (str, sst)"
    and ks: "list_all (\<lambda>k. k < length (datagrams_out ctr)) ks"
    and net: "map fst (datagrams_in str) = map (\<lambda>k. fst (datagrams_out ctr ! k)) ks"
  shows "packets_out str @ pending_write (interface str) sst = map (\<lambda>k. packets_in ctr ! k) ks \<and>
    well_directed ctr \<and> well_directed str"
proof -
  have c: "client_ok \<lparr>sin_port = hton ec 5555, sin_addr = a\<rparr> ctr cst"
    by (rule client_exec) fact+
  have sv: "server_ok str sst" by (rule server_exec) fact+
  then have "packets_out str @ pending_write (interface str) sst = map xor_key (map fst (datagrams_in str))"
    by (simp add: server_ok_def loop_stop_def)
  also have "\<dots> = map (\<lambda>k. xor_key (fst (datagrams_out ctr ! k))) ks" by (simp add: net)
  also have "\<dots> = map (\<lambda>k. packets_in ctr ! k) ks"
    using ks client_datagram [OF c] by (auto simp: list_all_iff vpn_cipher.crypt_crypt)
  finally show ?thesis using c sv by (simp add: client_ok_def server_ok_def loop_stop_def)
qed

theorem vpn_tunnel_is_transparent_witness:
  "\<exists>ctr str. exec (vpn_round Little vpn_client_args)
      (vpn_main Little (replicate 256 0) (replicate 2048 0) vpn_client_args)
      sample_client_replies =
      (ctr, Waiting (Select 5 [3, 4])) \<and>
    exec (vpn_round Big vpn_server_args)
      (vpn_main Big (replicate 256 0) (replicate 2048 0) vpn_server_args)
      sample_server_replies =
      (str, Waiting (Select 5 [3, 4])) \<and>
    packets_out str = [packets_in ctr ! 1]"
proof -
  obtain ctr where c: "exec (vpn_round Little vpn_client_args)
      (vpn_main Little (replicate 256 0) (replicate 2048 0) vpn_client_args)
      sample_client_replies =
      (ctr, Waiting (Select 5 [3, 4]))"
    and l: "length (datagrams_out ctr) = 2" and d: "map fst (datagrams_out ctr) = [xor_key [1, 2], xor_key [7, 9]]"
    by (rule exE [OF sample_client_run]) (elim conjE, rule that)
  obtain str where s: "exec (vpn_round Big vpn_server_args)
      (vpn_main Big (replicate 256 0) (replicate 2048 0) vpn_server_args)
      sample_server_replies =
      (str, Waiting (Select 5 [3, 4]))" and i: "map fst (datagrams_in str) = [xor_key [7, 9]]"
    by (rule exE [OF sample_server_run]) (elim conjE, rule that)
  have "fst (datagrams_out ctr ! 1) = xor_key [7, 9]"
    using nth_map [of 1 "datagrams_out ctr" fst] l d by simp
  then have n: "map fst (datagrams_in str) = map (\<lambda>k. fst (datagrams_out ctr ! k)) [1]" by (simp add: i)
  have "packets_out str @ pending_write (interface str) (Waiting (Select 5 [3, 4]) :: vpn_vars stop) =
      map (\<lambda>k. packets_in ctr ! k) [1] \<and>
    well_directed ctr \<and> well_directed str"
    by (rule vpn_tunnel_is_transparent [OF _ _ _ _ inet_pton_localhost [of Little, folded vpn_args(3)] c _ _ _ _ s _ n]) (simp_all add: l)
  then show ?thesis using c s by simp
qed

text \<open>The traffic leaks. Whoever sees two datagrams of a client whose packets have the same
  length learns the exclusive or of the two packets, and from one packet that is known the
  first bytes of the shared key: the key stream starts afresh for each packet.\<close>

lemma vpn_traffic_leaks:
  assumes "length cmd = 256" and "length buf = 2048" and "4 \<le> length argv" and "argv ! 1 = ''client''"
    and "inet_pton e (argv ! 3) = Some a"
    and "exec (vpn_round e argv) (vpn_main e cmd buf argv) rs = (tr, st)"
    and i: "i < length (datagrams_out tr)" and j: "j < length (datagrams_out tr)"
    and l: "length (packets_in tr ! i) = length (packets_in tr ! j)"
  shows "xor_bytes (fst (datagrams_out tr ! i)) (fst (datagrams_out tr ! j)) = xor_bytes (packets_in tr ! i) (packets_in tr ! j) \<and>
    take 16 (xor_bytes (fst (datagrams_out tr ! i)) (packets_in tr ! i)) = take (length (packets_in tr ! i)) shared_key"
proof -
  have ok: "client_ok \<lparr>sin_port = hton e 5555, sin_addr = a\<rparr> tr st" by (rule client_exec) fact+
  show ?thesis
    using client_datagram(1) [OF ok i] client_datagram(1) [OF ok j] vpn_cipher.two_time_pad [OF l]
      known_packet_reveals_key [of "packets_in tr ! i"] by simp
qed

theorem vpn_traffic_leaks_witness:
  "\<exists>tr. exec (vpn_round Little vpn_client_args)
      (vpn_main Little (replicate 256 0) (replicate 2048 0) vpn_client_args)
      sample_client_replies =
      (tr, Waiting (Select 5 [3, 4])) \<and>
    xor_bytes (fst (datagrams_out tr ! 0)) (fst (datagrams_out tr ! 1)) = [6, 11] \<and>
    take 16 (xor_bytes (fst (datagrams_out tr ! 0)) [1, 2]) = bytes_of ''My''"
proof -
  obtain tr where e: "exec (vpn_round Little vpn_client_args)
      (vpn_main Little (replicate 256 0) (replicate 2048 0) vpn_client_args)
      sample_client_replies =
      (tr, Waiting (Select 5 [3, 4]))" and t: "packets_in tr = [[1, 2], [7, 9]]" and l: "length (datagrams_out tr) = 2"
    by (rule exE [OF sample_client_run]) (elim conjE, rule that)
  then show ?thesis
    using vpn_traffic_leaks [OF _ _ _ _ _ e, of _ 0 1] by (simp add: inet_pton_localhost shared_key_def bytes_of_def)
qed


lemma addr_command: "c_format ''ip addr add %s/24 dev %s'' [CStr ip, CStr name] = ''ip addr add '' @ ip @ ''/24 dev '' @ name"
  by (simp add: c_format_def fmt_conv_def pad_left_def)

text \<open>C38: the address argument reaches the shell as it is. Whatever characters it holds, once the
  interface exists the next thing that server and client do is to pass to \<open>system\<close> the command
  with the argument in the middle, cut at 255 characters; nothing in it is checked or quoted.\<close>

theorem vpn_runs_its_argument:
  assumes "length cmd = 256" and "argv ! 1 = ''server'' \<and> 3 \<le> length argv \<or> argv ! 1 = ''client'' \<and> 4 \<le> length argv"
    and "CHR 0x00 \<notin> set (argv ! 2)" and "0 \<le> fd"
  shows "\<exists>tr. exec (vpn_round e argv) (vpn_main e cmd buf argv) [reply_ret fd, (reply_ret 0)\<lparr>payload := tun0\<rparr>] =
    (tr, Waiting (System (bytes_of (take 255 (''ip addr add '' @ argv ! 2 @ ''/24 dev tun0'')))))"
proof -
  let ?line = "''ip addr add '' @ argv ! 2 @ ''/24 dev tun0''"
  have "CHR 0x00 \<notin> set ?line" using assms(3) by auto
  then have "0 \<notin> set (bytes_of (take 255 ?line))" by (auto simp: zero_not_in_bytes_of dest: in_set_takeD)
  then have c: "cmd_line ''ip addr add %s/24 dev %s'' [CStr (argv ! 2), CStr ''tun0''] = bytes_of (take 255 ?line)"
    by (simp add: cmd_line_def addr_command takeWhile_no_zero del: set_append)
  have s: "string_of (bytes_of ''tun0'') = ''tun0''" by (rule string_of_bytes_of)
  show ?thesis
    using assms(2,4)
    by (auto simp: exec_def vpn_main_def run_server_def run_client_def vpn_setup_eq [OF assms(1)] tun_name_of_tun0 s c)
qed

theorem vpn_runs_its_argument_witness:
  "\<exists>tr. exec (vpn_round Little [''vpn'', ''server'', ''1;reboot #''])
      (vpn_main Little (replicate 256 0) (replicate 2048 0) [''vpn'', ''server'', ''1;reboot #''])
      [reply_ret 3, (reply_ret 0)\<lparr>payload := tun0\<rparr>] =
    (tr, Waiting (System (bytes_of ''ip addr add 1;reboot #/24 dev tun0'')))"
  using vpn_runs_its_argument [of "replicate 256 0" "[''vpn'', ''server'', ''1;reboot #'']" 3 Little "replicate 2048 0"]
  by simp

end
