(* ===== verification/VpnProgress.thy ===== *)
theory VpnProgress
  imports SimpleVpn
begin

text \<open>
  Progress of the VPN of simple_vpn.c: whatever happened before, an endpoint that waits in
  \<open>select\<close> serves the descriptor that becomes ready.
\<close>

section \<open>Waiting in select\<close>

text \<open>Both rounds wait in \<open>select\<close> at their head only.\<close>

definition selecting :: "vpn_vars \<Rightarrow> call \<Rightarrow> bool" where
  "selecting v c \<longleftrightarrow> tun_fd v < 1024 \<and> sock_fd v < 1024 \<and>
     c = Select (max (tun_fd v) (sock_fd v) + 1) [tun_fd v, sock_fd v]"

lemma net_never_selects:
  assumes "length (vpn_buffer v) = 2048"
  shows "run (client_net v fds) rs \<noteq> (tr, rest, Waiting (Select n xs))"
    and "run (server_net e v fds) rs \<noteq> (tr, rest, Waiting (Select n xs))"
  unfolding client_net_eq [OF assms] server_net_eq [OF assms]
  by (auto simp: write_tun_tail_def split: list.splits if_splits prod.splits)

lemma client_waits_at_head:
  assumes "client_inv a v h" and "run (client_round v) rs = (tr, rest, Waiting (Select n fds))"
  shows "selecting v (Select n fds)" and "tr = []"
proof -
  have v: "length (vpn_buffer v) = 2048" "0 \<le> tun_fd v" "0 \<le> sock_fd v"
    using assms(1) by (simp_all add: loop_defs)
  have l: "length (vpn_buffer (crypted (stored v r) n)) = 2048" for r n using v by simp
  show "selecting v (Select n fds)" and "tr = []"
    using assms(2) unfolding client_round_eq [OF v]
    by (auto simp: selecting_def select_head_def vpn_cleanup_def Let_def net_never_selects [OF v(1)] net_never_selects [OF l]
        split: list.splits if_splits prod.splits)
qed

lemma server_waits_at_head:
  assumes "server_inv v h" and "run (server_round e v) rs = (tr, rest, Waiting (Select n fds))"
  shows "selecting v (Select n fds)" and "tr = []"
proof -
  have v: "length (vpn_buffer v) = 2048" "0 \<le> tun_fd v" "0 \<le> sock_fd v"
    using assms(1) by (simp_all add: loop_defs)
  have l: "length (vpn_buffer (crypted (stored v r) n)) = 2048" for r n using v by simp
  show "selecting v (Select n fds)" and "tr = []"
    using assms(2) unfolding server_round_eq [OF v]
    by (auto simp: selecting_def select_head_def vpn_cleanup_def Let_def net_never_selects [OF v(1)] net_never_selects [OF l]
        split: list.splits if_splits prod.splits)
qed

lemma setup_never_selects:
  assumes "length cmd = 256"
  shows "run (run_client e ip sip cmd buf) rs \<noteq> (tr, rest, Waiting (Select n fds))"
    and "run (run_server e ip cmd buf) rs \<noteq> (tr, rest, Waiting (Select n fds))"
  unfolding run_client_def run_server_def vpn_setup_eq [OF assms]
  by (auto simp: attempt_def Let_def split: list.splits if_splits option.splits prod.splits)

text \<open>An endpoint that waits in \<open>select\<close> is at the head of its loop.\<close>

lemma client_at_head:
  assumes "length cmd = 256" and "length buf = 2048" and "4 \<le> length argv" and "argv ! 1 = ''client''"
    and "inet_pton e (argv ! 3) = Some a"
    and "exec (vpn_round e argv) (vpn_main e cmd buf argv) rs = (tr, Waiting (Select n fds))"
  obtains v where "client_inv \<lparr>sin_port = hton e 5555, sin_addr = a\<rparr> v tr" and "selecting v (Select n fds)"
    and "steps client_round (vpn_main e cmd buf argv) tr (Again v)"
proof -
  let ?p = "run_client e (argv ! 2) (argv ! 3) cmd buf"
  have m: "vpn_round e argv = client_round" "vpn_main e cmd buf argv = ?p"
    using assms(3,4) by (auto simp: vpn_round_def vpn_main_def)
  let ?a = "\<lparr>sin_port = hton e 5555, sin_addr = a\<rparr>"
  have first: "holds_at (client_inv ?a) (client_ok ?a) tr st" if "run ?p rs = (tr, rest, st)" for tr rest st
    using that by (rule client_first [OF assms(1,2,5)])
  have "run ?p rs = (tr, [], Waiting (Select n fds)) \<or>
      (\<exists>v h rs2 tr2. client_inv ?a v h \<and> steps client_round ?p h (Again v) \<and> tr = h @ tr2 \<and>
        run (client_round v) rs2 = (tr2, [], Waiting (Select n fds)))"
    by (rule vpn_client.exec_waits [OF first assms(6) [unfolded m]])
  then obtain v h rs2 tr2 where v: "client_inv \<lparr>sin_port = hton e 5555, sin_addr = a\<rparr> v h" "steps client_round ?p h (Again v)"
    and tr: "tr = h @ tr2" and r: "run (client_round v) rs2 = (tr2, [], Waiting (Select n fds))"
    using setup_never_selects(1) [OF assms(1)] by blast
  then show thesis using client_waits_at_head [OF v(1) r] that by (simp add: m)
qed

lemma server_at_head:
  assumes "length cmd = 256" and "length buf = 2048" and "3 \<le> length argv" and "argv ! 1 = ''server''"
    and "exec (vpn_round e argv) (vpn_main e cmd buf argv) rs = (tr, Waiting (Select n fds))"
  obtains v where "server_inv v tr" and "selecting v (Select n fds)"
    and "steps (server_round e) (vpn_main e cmd buf argv) tr (Again v)"
proof -
  let ?p = "run_server e (argv ! 2) cmd buf"
  have m: "vpn_round e argv = server_round e" "vpn_main e cmd buf argv = ?p"
    using assms(3,4) by (auto simp: vpn_round_def vpn_main_def)
  have first: "holds_at server_inv server_ok tr st" if "run ?p rs = (tr, rest, st)" for tr rest st
    using that by (rule server_first [OF assms(1,2)])
  have "run ?p rs = (tr, [], Waiting (Select n fds)) \<or>
      (\<exists>v h rs2 tr2. server_inv v h \<and> steps (server_round e) ?p h (Again v) \<and> tr = h @ tr2 \<and>
        run (server_round e v) rs2 = (tr2, [], Waiting (Select n fds)))"
    by (rule vpn_server.exec_waits [OF first assms(5) [unfolded m]])
  then obtain v h rs2 tr2 where v: "server_inv v h" "steps (server_round e) ?p h (Again v)"
    and tr: "tr = h @ tr2" and r: "run (server_round e v) rs2 = (tr2, [], Waiting (Select n fds))"
    using setup_never_selects(2) [OF assms(1)] by blast
  then show thesis using server_waits_at_head [OF v(1) r] that by (simp add: m)
qed

lemma client_serves:
  assumes i: "client_inv a v h" and sel: "selecting v c" and "0 \<le> ret r" "0 \<le> ret q"
  shows "tun_fd v \<in> set (ready r) \<Longrightarrow>
      \<exists>tr. run (client_round v) [r, q] = (tr, [], Waiting (Sendto (sock_fd v) (xor_key (received 2048 q)) a))"
    and "tun_fd v \<notin> set (ready r) \<Longrightarrow> sock_fd v \<in> set (ready r) \<Longrightarrow>
      \<exists>tr. run (client_round v) [r, q] = (tr, [], Waiting (Write (tun_fd v) (xor_key (received 2048 q))))"
    and "ret w < 0 \<Longrightarrow> \<exists>tr. run (client_round v) [w, x, y] = (tr, [], Exited 0) \<and> opened tr = []"
proof -
  have v: "length (vpn_buffer v) = 2048" "0 \<le> tun_fd v" "0 \<le> sock_fd v" and a: "vpn_peer v = a"
    using i by (simp_all add: loop_defs)
  note defs = client_round_eq [OF v] client_net_eq [OF v(1)] select_head_def write_tun_tail_def vpn_cleanup_def
  show "tun_fd v \<in> set (ready r) \<Longrightarrow>
      \<exists>tr. run (client_round v) [r, q] = (tr, [], Waiting (Sendto (sock_fd v) (xor_key (received 2048 q)) a))"
    and "tun_fd v \<notin> set (ready r) \<Longrightarrow> sock_fd v \<in> set (ready r) \<Longrightarrow>
      \<exists>tr. run (client_round v) [r, q] = (tr, [], Waiting (Write (tun_fd v) (xor_key (received 2048 q))))"
    and "ret w < 0 \<Longrightarrow> \<exists>tr. run (client_round v) [w, x, y] = (tr, [], Exited 0) \<and> opened tr = []"
    using sel assms(3,4) by (simp_all add: defs selecting_def a Let_def)
qed

lemma server_serves:
  assumes i: "server_inv v h" and sel: "selecting v c" and "0 \<le> ret r" "0 \<le> ret q"
  shows "tun_fd v \<in> set (ready r) \<Longrightarrow> sock_fd v \<notin> set (ready r) \<Longrightarrow>
      \<exists>tr v'. run (server_round e v) [r, q] = (tr, [], Looped v') \<and> tun_in (tun_fd v) tr = [received 2048 q] \<and>
        datagrams_out tr = [] \<and> (\<forall>fd. tun_out fd tr = []) \<and> opened tr = []"
    and "tun_fd v \<notin> set (ready r) \<Longrightarrow> sock_fd v \<in> set (ready r) \<Longrightarrow>
      \<exists>tr. run (server_round e v) [r, q] = (tr, [], Waiting (Write (tun_fd v) (xor_key (received 2048 q))))"
proof -
  have v: "length (vpn_buffer v) = 2048" "0 \<le> tun_fd v" "0 \<le> sock_fd v" using i by (simp_all add: loop_defs)
  have l: "length (vpn_buffer (crypted (stored v r) n)) = 2048" for r n using v by simp
  note defs = server_round_eq [OF v] server_net_eq [OF v(1)] server_net_eq [OF l] select_head_def write_tun_tail_def
  show "tun_fd v \<in> set (ready r) \<Longrightarrow> sock_fd v \<notin> set (ready r) \<Longrightarrow>
      \<exists>tr v'. run (server_round e v) [r, q] = (tr, [], Looped v') \<and> tun_in (tun_fd v) tr = [received 2048 q] \<and>
        datagrams_out tr = [] \<and> (\<forall>fd. tun_out fd tr = []) \<and> opened tr = []"
    and "tun_fd v \<notin> set (ready r) \<Longrightarrow> sock_fd v \<in> set (ready r) \<Longrightarrow>
      \<exists>tr. run (server_round e v) [r, q] = (tr, [], Waiting (Write (tun_fd v) (xor_key (received 2048 q))))"
    using sel assms(3,4) by (simp_all add: defs selecting_def)
qed

lemma server_selects_again:
  assumes "server_inv v h" and "selecting v (Select n fds)"
  shows "run (server_round e v) [] = ([], [], Waiting (Select n fds))"
proof -
  have v: "length (vpn_buffer v) = 2048" "0 \<le> tun_fd v" "0 \<le> sock_fd v" using assms(1) by (simp_all add: loop_defs)
  show ?thesis using assms(2) by (simp add: server_round_eq [OF v] select_head_def selecting_def)
qed

section \<open>Properties\<close>

text \<open>C14: the client makes progress. Whatever the system has answered so far, whenever the client
  waits in \<open>select\<close> it waits for both of its descriptors; when the interface is then ready and
  gives a packet, the next call sends it, encrypted and cut at 2048 bytes, to the server; when
  only the socket is ready and gives a datagram, the next call writes it, decrypted, to the
  interface; and when \<open>select\<close> fails, the process closes both descriptors and exits with 0.\<close>

theorem vpn_client_serves_ready_descriptors:
  assumes "length cmd = 256" and "length buf = 2048" and "4 \<le> length argv" and "argv ! 1 = ''client''"
    and "inet_pton e (argv ! 3) = Some a"
    and x: "exec (vpn_round e argv) (vpn_main e cmd buf argv) rs = (tr, Waiting (Select n fds))"
    and "0 \<le> ret r" "0 \<le> ret q" "ret w < 0"
  shows "\<exists>tun sock. opened tr = [tun, sock] \<and> fds = [tun, sock] \<and> n = max tun sock + 1 \<and>
    (tun \<in> set (ready r) \<longrightarrow> (\<exists>tr'. exec (vpn_round e argv) (vpn_main e cmd buf argv) (rs @ [r, q]) =
       (tr @ tr', Waiting (Sendto sock (xor_key (received 2048 q)) \<lparr>sin_port = hton e 5555, sin_addr = a\<rparr>)))) \<and>
    (tun \<notin> set (ready r) \<and> sock \<in> set (ready r) \<longrightarrow>
       (\<exists>tr'. exec (vpn_round e argv) (vpn_main e cmd buf argv) (rs @ [r, q]) =
         (tr @ tr', Waiting (Write tun (xor_key (received 2048 q)))))) \<and>
    (\<exists>tr'. exec (vpn_round e argv) (vpn_main e cmd buf argv) (rs @ [w, reply_ret 0, reply_ret 0]) =
       (tr @ tr', Exited 0) \<and> closed (tr @ tr') = [tun, sock])"
proof -
  let ?a = "\<lparr>sin_port = hton e 5555, sin_addr = a\<rparr>" and ?p = "vpn_main e cmd buf argv"
  have m: "vpn_round e argv = client_round" using assms(4) by (simp add: vpn_round_def)
  obtain v where i: "client_inv ?a v tr" and sel: "selecting v (Select n fds)" and s: "steps client_round ?p tr (Again v)"
    by (rule client_at_head [OF assms(1-6)])
  have go: "exec client_round ?p (rs @ us) = (tr @ tr', st)"
    if "run (client_round v) us = (tr', [], st)" and "\<forall>v. st \<noteq> Looped v" for us tr' st
    using vpn_client.exec_serves [OF x [unfolded m] s that] .
  have o: "opened tr = [tun_fd v, sock_fd v]" using i by (simp add: loop_defs)
  obtain tr1 where e1: "run (client_round v) [w, reply_ret 0, reply_ret 0] = (tr1, [], Exited 0)" and o1: "opened tr1 = []"
    using client_serves(3) [OF i sel assms(7,8,9)] by blast
  have c1: "client_ok ?a (tr @ tr1) (Exited 0)" using client_round_inv [OF i e1] by simp
  have "closed (tr @ tr1) = [tun_fd v, sock_fd v]" using c1 o o1 by (simp add: loop_defs)
  then show ?thesis
    using go [OF e1] client_serves(1,2) [OF i sel assms(7,8)] go sel o
    unfolding m by (intro exI [of _ "tun_fd v"] exI [of _ "sock_fd v"]) (auto simp: selecting_def)
qed

lemma sample_client_waits:
  "\<exists>tr. exec (vpn_round Little vpn_client_args)
      (vpn_main Little (replicate 256 0) (replicate 2048 0) vpn_client_args) (vpn_ready 3 4) =
      (tr, Waiting (Select 5 [3, 4]))"
  by (simp add: exec_def vpn_main_def vpn_round_def run_client_def vpn_setup_eq vpn_ready_def tun_name_of_tun0
      client_round_eq select_head_def inet_pton_localhost Let_def)

theorem vpn_client_serves_ready_descriptors_witness:
  "\<exists>tr. exec (vpn_round Little vpn_client_args)
      (vpn_main Little (replicate 256 0) (replicate 2048 0) vpn_client_args)
      (vpn_ready 3 4 @ [reply_ready [3], reply_data [7, 9] \<lparr>sin_port = 0, sin_addr = 0\<rparr>]) =
      (tr, Waiting (Sendto 4 (xor_key [7, 9]) \<lparr>sin_port = hton Little 5555, sin_addr = dec Little [127, 0, 0, 1]\<rparr>))"
proof -
  obtain tr where x: "exec (vpn_round Little vpn_client_args)
      (vpn_main Little (replicate 256 0) (replicate 2048 0) vpn_client_args) (vpn_ready 3 4) =
      (tr, Waiting (Select 5 [3, 4]))"
    using sample_client_waits by blast
  show ?thesis
    using vpn_client_serves_ready_descriptors [OF _ _ _ _ _ x, of _ "reply_ready [3]"
        "reply_data [7, 9] \<lparr>sin_port = 0, sin_addr = 0\<rparr>" "reply_ret (- 1)"]
    by (auto simp: inet_pton_localhost)
qed


lemma sample_server_waits:
  "\<exists>tr. exec (vpn_round Big vpn_server_args)
      (vpn_main Big (replicate 256 0) (replicate 2048 0) vpn_server_args) (vpn_ready 3 4 @ [reply_ret 0]) =
      (tr, Waiting (Select 5 [3, 4]))"
  by (simp add: exec_def vpn_main_def vpn_round_def run_server_def vpn_setup_eq vpn_ready_def tun_name_of_tun0
      server_round_eq select_head_def Let_def)


end
