(* ===== verification/Network.thy ===== *)
theory Network
  imports Posix
begin

text \<open>
  Two processes and a network between them. Each process moves by itself, in any order; a call of
  \<open>recvfrom\<close> that succeeds delivers a datagram that the other process has sent before, any one of
  them and any number of times, so datagrams may be lost, duplicated and reordered. All other
  replies are arbitrary.
\<close>

section \<open>The calls that a program can make\<close>

primrec asks :: "(call \<Rightarrow> bool) \<Rightarrow> 's prog \<Rightarrow> bool" where
  "asks P (Sys c k) \<longleftrightarrow> P c \<and> (\<forall>r. asks P (k r))"
| "asks P (Say x p) \<longleftrightarrow> asks P p"
| "asks P (Exit n) \<longleftrightarrow> True"
| "asks P (Again s) \<longleftrightarrow> True"
| "asks P Undefined \<longleftrightarrow> True"

lemma asks_attempt [simp]: "asks P (attempt m k) \<longleftrightarrow> (\<forall>x. m = Some x \<longrightarrow> asks P (k x))"
  by (cases m) simp_all

lemma asks_says [simp]: "asks P (says outs p) \<longleftrightarrow> asks P p"
  by (induction outs) (simp_all add: says_def)

lemma steps_asks:
  assumes "\<And>s. asks P (body s)"
  shows "steps body p tr q \<Longrightarrow> asks P p \<Longrightarrow> list_all (P \<circ> fst) (calls_of tr)"
  by (induction rule: steps.induct) (auto simp: assms)

section \<open>Parts of a path\<close>

lemma steps_split:
  "steps body p tr q \<Longrightarrow> tr = tr1 @ tr2 \<Longrightarrow> \<exists>m. steps body p tr1 m \<and> steps body m tr2 q"
proof (induction arbitrary: tr1 rule: steps.induct)
  case (steps_call k r tr q c)
  then show ?case by (cases tr1) (fastforce intro: steps.intros)+
next
  case (steps_say p tr q x)
  then show ?case by (cases tr1) (fastforce intro: steps.intros)+
qed (fastforce intro: steps.intros)+

text \<open>A process that waits goes on from where it waits.\<close>

lemma steps_resume:
  "steps body p tr (Sys c k) \<Longrightarrow> steps body p (tr @ tr') q \<Longrightarrow> tr' \<noteq> [] \<Longrightarrow> steps body (Sys c k) tr' q"
proof (induction p tr "Sys c k" rule: steps.induct)
  case (steps_again s tr)
  then show ?case by (auto elim: steps_AgainE)
qed (auto elim: steps_SysE steps_SayE)

section \<open>Two processes\<close>

inductive prog_step :: "('s \<Rightarrow> 's prog) \<Rightarrow> 's prog \<Rightarrow> event list \<Rightarrow> 's prog \<Rightarrow> bool"
  for body :: "'s \<Rightarrow> 's prog" where
  step_call: "prog_step body (Sys c k) [Called c r] (k r)"
| step_say: "prog_step body (Say x p) [Shown x] p"
| step_again: "prog_step body (Again s) [] (body s)"

lemma prog_step_steps: "prog_step body p evs q \<Longrightarrow> steps body p evs q"
  by (induction rule: prog_step.induct) (auto intro: steps.intros)

record ('c, 's) network =
  client :: "'c prog"
  server :: "'s prog"
  client_log :: "event list"
  server_log :: "event list"

text \<open>What a process receives is in a set of datagrams, cut at the size of the buffer.\<close>

definition arrives :: "bytes set \<Rightarrow> call \<times> reply \<Rightarrow> bool" where
  "arrives D = (\<lambda>(c, r). case c of
      Recvfrom fd n \<Rightarrow> ret r < 0 \<or> received n r \<in> take n ` D
    | _ \<Rightarrow> True)"

abbreviation sent_before :: "event list \<Rightarrow> call \<times> reply \<Rightarrow> bool" where
  "sent_before log \<equiv> arrives (fst ` set (datagrams_out log))"

text \<open>The datagrams that were ever on the wire, which third parties may have seen: those whose
  \<open>sendto\<close> succeeded. Whether a failed \<open>sendto\<close> still reaches the other process is left open.\<close>

definition carried :: "event list \<Rightarrow> bytes list" where
  "carried tr = concat (map (\<lambda>(c, r). case c of
      Sendto fd bs a \<Rightarrow> if ret r < 0 then [] else [bs] | _ \<Rightarrow> []) (calls_of tr))"

lemma carried_simps [simp]:
  "carried [] = []" "carried (Shown x # tr) = carried tr" "carried (tr @ tr') = carried tr @ carried tr'"
  "carried (Called c r # tr) = (case c of Sendto fd bs a \<Rightarrow> if ret r < 0 then [] else [bs] | _ \<Rightarrow> []) @ carried tr"
  by (simp_all add: carried_def)

lemma carried_sent: "set (carried tr) \<subseteq> fst ` set (datagrams_out tr)"
proof (induction tr)
  case (Cons ev tr)
  then show ?case by (cases ev) (auto split: call.split)
qed simp

definition wire :: "('c, 's) network \<Rightarrow> bytes set" where
  "wire s = set (carried (client_log s)) \<union> set (carried (server_log s))"

lemma wire_simps [simp]:
  "wire (s\<lparr>client := p, client_log := client_log s @ evs\<rparr>) = wire s \<union> set (carried evs)"
  "wire (s\<lparr>server := q, server_log := server_log s @ evs\<rparr>) = wire s \<union> set (carried evs)"
  by (auto simp: wire_def)

text \<open>
  The argument \<open>inject\<close> says which datagrams a third party can send that has seen the wire. The
  closed network \<open>net_reach\<close> has none.
\<close>

inductive open_step :: "(bytes set \<Rightarrow> bytes set) \<Rightarrow>
    ('c \<Rightarrow> 'c prog) \<Rightarrow> ('s \<Rightarrow> 's prog) \<Rightarrow> ('c, 's) network \<Rightarrow> ('c, 's) network \<Rightarrow> bool"
  for inject :: "bytes set \<Rightarrow> bytes set" and cbody :: "'c \<Rightarrow> 'c prog" and sbody :: "'s \<Rightarrow> 's prog" where
  client_moves: "prog_step cbody (client s) evs p \<Longrightarrow>
    list_all (arrives (fst ` set (datagrams_out (server_log s)) \<union> inject (wire s))) (calls_of evs) \<Longrightarrow>
    open_step inject cbody sbody s (s\<lparr>client := p, client_log := client_log s @ evs\<rparr>)"
| server_moves: "prog_step sbody (server s) evs p \<Longrightarrow>
    list_all (arrives (fst ` set (datagrams_out (client_log s)) \<union> inject (wire s))) (calls_of evs) \<Longrightarrow>
    open_step inject cbody sbody s (s\<lparr>server := p, server_log := server_log s @ evs\<rparr>)"

inductive open_reach :: "(bytes set \<Rightarrow> bytes set) \<Rightarrow>
    ('c \<Rightarrow> 'c prog) \<Rightarrow> ('s \<Rightarrow> 's prog) \<Rightarrow> 'c prog \<Rightarrow> 's prog \<Rightarrow> ('c, 's) network \<Rightarrow> bool"
  for inject :: "bytes set \<Rightarrow> bytes set" and cbody :: "'c \<Rightarrow> 'c prog" and sbody :: "'s \<Rightarrow> 's prog"
    and cp :: "'c prog" and sp :: "'s prog" where
  reach_start: "open_reach inject cbody sbody cp sp \<lparr>client = cp, server = sp, client_log = [], server_log = []\<rparr>"
| reach_step: "open_reach inject cbody sbody cp sp s \<Longrightarrow> open_step inject cbody sbody s s' \<Longrightarrow>
    open_reach inject cbody sbody cp sp s'"

abbreviation net_reach ::
    "('c \<Rightarrow> 'c prog) \<Rightarrow> ('s \<Rightarrow> 's prog) \<Rightarrow> 'c prog \<Rightarrow> 's prog \<Rightarrow> ('c, 's) network \<Rightarrow> bool" where
  "net_reach \<equiv> open_reach (\<lambda>_. {})"

lemma arrives_mono: "D \<subseteq> D' \<Longrightarrow> arrives D cr \<Longrightarrow> arrives D' cr"
  by (fastforce simp: arrives_def split: call.splits prod.splits)

lemma all_arrive_mono: "D \<subseteq> D' \<Longrightarrow> list_all (arrives D) crs \<Longrightarrow> list_all (arrives D') crs"
  using arrives_mono by (blast intro: list.pred_mono_strong)

text \<open>Each process follows its own path, and its receptions come from the other one or from outside.\<close>

definition open_inv :: "(bytes set \<Rightarrow> bytes set) \<Rightarrow>
    ('c \<Rightarrow> 'c prog) \<Rightarrow> ('s \<Rightarrow> 's prog) \<Rightarrow> 'c prog \<Rightarrow> 's prog \<Rightarrow> ('c, 's) network \<Rightarrow> bool" where
  "open_inv inject cbody sbody cp sp s \<longleftrightarrow>
     steps cbody cp (client_log s) (client s) \<and> steps sbody sp (server_log s) (server s) \<and>
     list_all (arrives (fst ` set (datagrams_out (server_log s)) \<union> inject (wire s))) (calls_of (client_log s)) \<and>
     list_all (arrives (fst ` set (datagrams_out (client_log s)) \<union> inject (wire s))) (calls_of (server_log s))"

text \<open>The interface of a third party: what it sees more of the wire, it can send more.\<close>

locale third_party =
  fixes inject :: "bytes set \<Rightarrow> bytes set"
  assumes inject_mono: "A \<subseteq> B \<Longrightarrow> inject A \<subseteq> inject B"
begin

lemma open_step_inv:
  assumes "open_step inject cbody sbody s s'" and i: "open_inv inject cbody sbody cp sp s"
  shows "open_inv inject cbody sbody cp sp s'"
  using assms(1)
proof (cases rule: open_step.cases)
  case (client_moves evs p)
  have m: "inject (wire s) \<subseteq> inject (wire s')" by (rule inject_mono) (simp add: client_moves(1))
  have "steps cbody cp (client_log s @ evs) p"
    using i steps_trans prog_step_steps [OF client_moves(2)] by (auto simp: open_inv_def)
  then show ?thesis
    using i client_moves m by (auto simp: open_inv_def elim!: all_arrive_mono [rotated])
next
  case (server_moves evs p)
  have m: "inject (wire s) \<subseteq> inject (wire s')" by (rule inject_mono) (simp add: server_moves(1))
  have "steps sbody sp (server_log s @ evs) p"
    using i steps_trans prog_step_steps [OF server_moves(2)] by (auto simp: open_inv_def)
  then show ?thesis
    using i server_moves m by (auto simp: open_inv_def elim!: all_arrive_mono [rotated])
qed

lemma open_reach_inv: "open_reach inject cbody sbody cp sp s \<Longrightarrow> open_inv inject cbody sbody cp sp s"
proof (induction rule: open_reach.induct)
  case reach_start
  then show ?case by (simp add: open_inv_def steps_refl)
next
  case (reach_step s s')
  then show ?case using open_step_inv by blast
qed

text \<open>A path of one process, whose receptions are available, is a path of the network.\<close>

lemma client_step:
  assumes "prog_step cbody (client s) evs p" and "open_reach inject cbody sbody cp sp s"
    and "list_all (arrives (fst ` set (datagrams_out (server_log s)) \<union> inject (wire s))) (calls_of (evs @ tr))"
  shows "open_reach inject cbody sbody cp sp (s\<lparr>client := p, client_log := client_log s @ evs\<rparr>)"
    and "list_all (arrives (fst ` set (datagrams_out (server_log s)) \<union> inject (wire (s\<lparr>client := p, client_log := client_log s @ evs\<rparr>)))) (calls_of tr)"
proof -
  have "open_step inject cbody sbody s (s\<lparr>client := p, client_log := client_log s @ evs\<rparr>)"
    using assms(1,3) by (intro client_moves) auto
  then show "open_reach inject cbody sbody cp sp (s\<lparr>client := p, client_log := client_log s @ evs\<rparr>)"
    using assms(2) by (blast intro: reach_step)
  have "inject (wire s) \<subseteq> inject (wire (s\<lparr>client := p, client_log := client_log s @ evs\<rparr>))"
    by (rule inject_mono) (simp only: wire_simps Un_upper1)
  then show "list_all (arrives (fst ` set (datagrams_out (server_log s)) \<union> inject (wire (s\<lparr>client := p, client_log := client_log s @ evs\<rparr>)))) (calls_of tr)"
    using assms(3) all_arrive_mono [OF Un_mono [OF order_refl]] by simp
qed

lemma client_path:
  "steps cbody p tr q \<Longrightarrow> open_reach inject cbody sbody cp sp s \<Longrightarrow> client s = p \<Longrightarrow>
   list_all (arrives (fst ` set (datagrams_out (server_log s)) \<union> inject (wire s))) (calls_of tr) \<Longrightarrow>
   open_reach inject cbody sbody cp sp (s\<lparr>client := q, client_log := client_log s @ tr\<rparr>)"
proof (induction arbitrary: s rule: steps.induct)
  case (steps_refl p)
  then show ?case by (cases s) simp
next
  case (steps_call k r tr q c)
  let ?s = "s\<lparr>client := k r, client_log := client_log s @ [Called c r]\<rparr>"
  have "prog_step cbody (client s) [Called c r] (k r)" using steps_call.prems(2) by (simp add: step_call)
  from client_step [OF this steps_call.prems(1), of tr] steps_call.prems(3) steps_call.IH [of ?s]
  show ?case by simp
next
  case (steps_say p tr q x)
  let ?s = "s\<lparr>client := p, client_log := client_log s @ [Shown x]\<rparr>"
  have "prog_step cbody (client s) [Shown x] p" using steps_say.prems(2) by (simp add: step_say)
  from client_step [OF this steps_say.prems(1), of tr] steps_say.prems(3) steps_say.IH [of ?s]
  show ?case by simp
next
  case (steps_again v tr q)
  let ?s = "s\<lparr>client := cbody v, client_log := client_log s @ []\<rparr>"
  have "prog_step cbody (client s) [] (cbody v)" using steps_again.prems(2) by (simp add: step_again)
  from client_step [OF this steps_again.prems(1), of tr] steps_again.prems(3) steps_again.IH [of ?s]
  show ?case by simp
qed

lemma server_step:
  assumes "prog_step sbody (server s) evs p" and "open_reach inject cbody sbody cp sp s"
    and "list_all (arrives (fst ` set (datagrams_out (client_log s)) \<union> inject (wire s))) (calls_of (evs @ tr))"
  shows "open_reach inject cbody sbody cp sp (s\<lparr>server := p, server_log := server_log s @ evs\<rparr>)"
    and "list_all (arrives (fst ` set (datagrams_out (client_log s)) \<union> inject (wire (s\<lparr>server := p, server_log := server_log s @ evs\<rparr>)))) (calls_of tr)"
proof -
  have "open_step inject cbody sbody s (s\<lparr>server := p, server_log := server_log s @ evs\<rparr>)"
    using assms(1,3) by (intro server_moves) auto
  then show "open_reach inject cbody sbody cp sp (s\<lparr>server := p, server_log := server_log s @ evs\<rparr>)"
    using assms(2) by (blast intro: reach_step)
  have "inject (wire s) \<subseteq> inject (wire (s\<lparr>server := p, server_log := server_log s @ evs\<rparr>))"
    by (rule inject_mono) (simp only: wire_simps Un_upper1)
  then show "list_all (arrives (fst ` set (datagrams_out (client_log s)) \<union> inject (wire (s\<lparr>server := p, server_log := server_log s @ evs\<rparr>)))) (calls_of tr)"
    using assms(3) all_arrive_mono [OF Un_mono [OF order_refl]] by simp
qed

lemma server_path:
  "steps sbody p tr q \<Longrightarrow> open_reach inject cbody sbody cp sp s \<Longrightarrow> server s = p \<Longrightarrow>
   list_all (arrives (fst ` set (datagrams_out (client_log s)) \<union> inject (wire s))) (calls_of tr) \<Longrightarrow>
   open_reach inject cbody sbody cp sp (s\<lparr>server := q, server_log := server_log s @ tr\<rparr>)"
proof (induction arbitrary: s rule: steps.induct)
  case (steps_refl p)
  then show ?case by (cases s) simp
next
  case (steps_call k r tr q c)
  let ?s = "s\<lparr>server := k r, server_log := server_log s @ [Called c r]\<rparr>"
  have "prog_step sbody (server s) [Called c r] (k r)" using steps_call.prems(2) by (simp add: step_call)
  from server_step [OF this steps_call.prems(1), of tr] steps_call.prems(3) steps_call.IH [of ?s]
  show ?case by simp
next
  case (steps_say p tr q x)
  let ?s = "s\<lparr>server := p, server_log := server_log s @ [Shown x]\<rparr>"
  have "prog_step sbody (server s) [Shown x] p" using steps_say.prems(2) by (simp add: step_say)
  from server_step [OF this steps_say.prems(1), of tr] steps_say.prems(3) steps_say.IH [of ?s]
  show ?case by simp
next
  case (steps_again v tr q)
  let ?s = "s\<lparr>server := sbody v, server_log := server_log s @ []\<rparr>"
  have "prog_step sbody (server s) [] (sbody v)" using steps_again.prems(2) by (simp add: step_again)
  from server_step [OF this steps_again.prems(1), of tr] steps_again.prems(3) steps_again.IH [of ?s]
  show ?case by simp
qed

text \<open>The client sends, the server answers, the client goes on.\<close>

lemma reach_exchange:
  assumes "exec cbody cp crs = (c1 @ c2, cst)" and "exec sbody sp srs = (str, sst)"
    and "list_all (sent_before []) (calls_of c1)" and "list_all (sent_before c1) (calls_of str)"
    and "list_all (sent_before str) (calls_of c2)"
  obtains s where "open_reach inject cbody sbody cp sp s" and "client_log s = c1 @ c2" and "server_log s = str"
    and "stopped_at cst (client s)" and "stopped_at sst (server s)"
proof -
  obtain q where q: "steps cbody cp (c1 @ c2) q" "stopped_at cst q" using iterate_steps assms(1) unfolding exec_def by blast
  then obtain m where c: "steps cbody cp c1 m" "steps cbody m c2 q" using steps_split by blast
  obtain q2 where s: "steps sbody sp str q2" "stopped_at sst q2" using iterate_steps assms(2) unfolding exec_def by blast
  note reach = client_path [OF c(2) server_path [OF s(1) client_path [OF c(1) reach_start]]]
  show thesis
    by (rule that, rule reach)
       (use assms(3-5) q(2) s(2) in \<open>auto elim!: all_arrive_mono [rotated]\<close>)
qed

end

interpretation closed: third_party "\<lambda>_. {}"
  by unfold_locales simp

text \<open>The datagrams received, for a process that receives with buffers of one size only.\<close>

definition receives_up_to :: "nat \<Rightarrow> call \<Rightarrow> bool" where
  "receives_up_to n c = (case c of Recvfrom fd k \<Rightarrow> k = n | Read fd k \<Rightarrow> k = n | _ \<Rightarrow> True)"

lemma received_were_sent:
  assumes "list_all (arrives D) (calls_of tr)" and "list_all (receives_up_to n \<circ> fst) (calls_of tr)"
  shows "fst ` set (datagrams_in tr) \<subseteq> take n ` D"
  using assms
  by (fastforce simp: datagrams_in_def arrives_def receives_up_to_def list_all_iff split: call.splits if_splits)

end
