(* ===== verification/Exchange.thy ===== *)
theory Exchange
  imports Network UdpEcho SimpleVpn
begin

text \<open>
  The programs with two ends, running against each other over the network: the VPN of
  simple_vpn.c and the UDP echo of 02_udp_echo_server.c, in every interleaving.
\<close>

section \<open>The VPN\<close>

lemma vpn_asks:
  "asks (receives_up_to 2048) (server_round e v)" "asks (receives_up_to 2048) (client_round v)"
  "asks (receives_up_to 2048) (vpn_main e cmd buf argv)"
proof -
  note defs = receives_up_to_def vpn_select_def vpn_cleanup_def vpn_write_tun_def vpn_setup_def tun_alloc_def Let_def
  show "asks (receives_up_to 2048) (server_round e v)" by (simp add: server_round_def server_net_def defs)
  show "asks (receives_up_to 2048) (client_round v)" by (simp add: client_round_def client_net_def defs)
  show "asks (receives_up_to 2048) (vpn_main e cmd buf argv)"
    by (simp add: vpn_main_def run_server_def run_client_def defs split: option.split)
qed

lemma vpn_round_asks: "asks (receives_up_to 2048) (vpn_round e argv v)"
  by (simp add: vpn_round_def vpn_asks)

text \<open>Events that are no calls do not count.\<close>

lemma no_calls:
  assumes "calls_of tr' = []"
  shows "datagrams_in tr' = []" "datagrams_out tr' = []" "tun_in fd tr' = []" "tun_out fd tr' = []" "opened tr' = []"
    "env_fault (tr @ tr') = env_fault tr" "first_fd made (tr @ tr') = first_fd made tr" "all_io file sock tr'"
  using assms by (simp_all add: datagrams_in_def datagrams_out_def tun_in_def tun_out_def opened_def env_fault_def first_fd_def all_io_def
      del: first_fd_append)

lemma client_anywhere:
  assumes "length cmd = 256" and "length buf = 2048" and "4 \<le> length argv" and "argv ! 1 = ''client''"
    and "inet_pton e (argv ! 3) = Some a"
    and p: "steps (vpn_round e argv) (vpn_main e cmd buf argv) tr q"
  shows "fst ` set (datagrams_out tr) \<subseteq> xor_key ` set (packets_in tr)"
    and "set (packets_out tr) \<subseteq> xor_key ` fst ` set (datagrams_in tr)" and "q = Undefined \<Longrightarrow> env_fault tr"
    and "well_directed tr"
proof -
  have m: "vpn_round e argv = client_round" using assms(4) by (simp add: vpn_round_def)
  obtain tr' st where x: "exec (vpn_round e argv) (vpn_main e cmd buf argv) (map snd (calls_of tr)) = (tr @ tr', st)"
    and t: "calls_of tr' = []" and c: "q = Undefined \<Longrightarrow> st = Crashed"
    using vpn_client.steps_to_stop [OF p [unfolded m], folded m] by blast
  have ok: "client_ok \<lparr>sin_port = hton e 5555, sin_addr = a\<rparr> (tr @ tr') st" by (rule client_exec [OF assms(1-5) x])
  let ?a = "\<lparr>sin_port = hton e 5555, sin_addr = a\<rparr>"
  have "map (\<lambda>p. (xor_key p, ?a)) (packets_in tr) = datagrams_out tr @ pending_datagram st"
    using ok by (simp add: client_ok_def no_calls [OF t] del: first_fd_append)
  from arg_cong [OF this, of set] have "set (datagrams_out tr) \<subseteq> (\<lambda>p. (xor_key p, ?a)) ` set (packets_in tr)" by auto
  then show "fst ` set (datagrams_out tr) \<subseteq> xor_key ` set (packets_in tr)" by auto
  have "map (xor_key \<circ> fst) (datagrams_in tr) = packets_out tr @ pending_write (interface tr) st"
    using ok by (simp add: client_ok_def loop_stop_def no_calls [OF t] del: first_fd_append)
  from arg_cong [OF this, of set] have "set (packets_out tr) \<subseteq> (xor_key \<circ> fst) ` set (datagrams_in tr)" by auto
  then show "set (packets_out tr) \<subseteq> xor_key ` fst ` set (datagrams_in tr)" by (simp add: image_comp)
  show "q = Undefined \<Longrightarrow> env_fault tr" using ok c by (auto simp: client_ok_def loop_stop_def no_calls [OF t] del: first_fd_append)
  show "well_directed tr" using ok by (simp add: client_ok_def loop_stop_def no_calls [OF t] del: first_fd_append)
qed

lemma server_anywhere:
  assumes "length cmd = 256" and "length buf = 2048" and "3 \<le> length argv" and "argv ! 1 = ''server''"
    and p: "steps (vpn_round e argv) (vpn_main e cmd buf argv) tr q"
  shows "datagrams_out tr = []"
    and "set (packets_out tr) \<subseteq> xor_key ` fst ` set (datagrams_in tr)" and "q = Undefined \<Longrightarrow> env_fault tr"
    and "well_directed tr"
proof -
  have m: "vpn_round e argv = server_round e" using assms(4) by (simp add: vpn_round_def)
  obtain tr' st where x: "exec (vpn_round e argv) (vpn_main e cmd buf argv) (map snd (calls_of tr)) = (tr @ tr', st)"
    and t: "calls_of tr' = []" and c: "q = Undefined \<Longrightarrow> st = Crashed"
    using vpn_server.steps_to_stop [OF p [unfolded m], folded m] by blast
  have ok: "server_ok (tr @ tr') st" by (rule server_exec [OF assms(1-4) x])
  then show "datagrams_out tr = []" by (simp add: server_ok_def no_calls [OF t] del: first_fd_append)
  have "map (xor_key \<circ> fst) (datagrams_in tr) = packets_out tr @ pending_write (interface tr) st"
    using ok by (simp add: server_ok_def loop_stop_def no_calls [OF t] del: first_fd_append)
  from arg_cong [OF this, of set] have "set (packets_out tr) \<subseteq> (xor_key \<circ> fst) ` set (datagrams_in tr)" by auto
  then show "set (packets_out tr) \<subseteq> xor_key ` fst ` set (datagrams_in tr)" by (simp add: image_comp)
  show "q = Undefined \<Longrightarrow> env_fault tr" using ok c by (auto simp: server_ok_def loop_stop_def no_calls [OF t] del: first_fd_append)
  show "well_directed tr" using ok by (simp add: server_ok_def loop_stop_def no_calls [OF t] del: first_fd_append)
qed

lemma tun_in_short: "list_all (receives_up_to 2048 \<circ> fst) (calls_of tr) \<Longrightarrow> p \<in> set (tun_in fd tr) \<Longrightarrow> length p \<le> 2048"
  using received_length
  by (fastforce simp: tun_in_def receives_up_to_def list_all_iff split: call.splits if_splits)

text \<open>What the tunnel keeps on every network, whatever third parties send.\<close>

lemma tunnel_on_network:
  assumes "length ccmd = 256" "length cbuf = 2048" "4 \<le> length cargv" "cargv ! 1 = ''client''"
    and "inet_pton ec (cargv ! 3) = Some a"
    and "length scmd = 256" "length sbuf = 2048" "3 \<le> length sargv" "sargv ! 1 = ''server''"
    and inv: "open_inv inject (vpn_round ec cargv) (vpn_round es sargv)
      (vpn_main ec ccmd cbuf cargv) (vpn_main es scmd sbuf sargv) s"
  shows "set (packets_out (server_log s)) \<subseteq> set (packets_in (client_log s)) \<union> xor_key ` take 2048 ` inject (wire s)"
    and "set (packets_out (client_log s)) \<subseteq> xor_key ` take 2048 ` inject (wire s)"
    and "datagrams_out (server_log s) = []"
    and "fst ` set (datagrams_out (client_log s)) \<subseteq> xor_key ` set (packets_in (client_log s))"
    and "p \<in> set (packets_in (client_log s)) \<Longrightarrow> length p \<le> 2048"
    and "client s = Undefined \<Longrightarrow> env_fault (client_log s)" and "server s = Undefined \<Longrightarrow> env_fault (server_log s)"
    and "well_directed (client_log s)" and "well_directed (server_log s)"
proof -
  have c: "steps (vpn_round ec cargv) (vpn_main ec ccmd cbuf cargv) (client_log s) (client s)"
    and sv: "steps (vpn_round es sargv) (vpn_main es scmd sbuf sargv) (server_log s) (server s)"
    and to_client: "list_all (arrives (fst ` set (datagrams_out (server_log s)) \<union> inject (wire s))) (calls_of (client_log s))"
    and to_server: "list_all (arrives (fst ` set (datagrams_out (client_log s)) \<union> inject (wire s))) (calls_of (server_log s))"
    using inv by (simp_all add: open_inv_def)
  note client = client_anywhere [OF assms(1-5) c] and server = server_anywhere [OF assms(6-9) sv]
  have sizes: "list_all (receives_up_to 2048 \<circ> fst) (calls_of (client_log s))"
    "list_all (receives_up_to 2048 \<circ> fst) (calls_of (server_log s))"
    using steps_asks [OF vpn_round_asks c vpn_asks(3)] steps_asks [OF vpn_round_asks sv vpn_asks(3)] by simp_all
  show "datagrams_out (server_log s) = []"
    and "fst ` set (datagrams_out (client_log s)) \<subseteq> xor_key ` set (packets_in (client_log s))"
    and "client s = Undefined \<Longrightarrow> env_fault (client_log s)" and "server s = Undefined \<Longrightarrow> env_fault (server_log s)"
    and "well_directed (client_log s)" and "well_directed (server_log s)"
    using client server by blast+
  show short: "length p \<le> 2048" if "p \<in> set (packets_in (client_log s))" for p
    using tun_in_short [OF sizes(1) that] .
  have "fst ` set (datagrams_in (client_log s)) \<subseteq> take 2048 ` inject (wire s)"
    using received_were_sent [OF to_client sizes(1)] server(1) by simp
  then show "set (packets_out (client_log s)) \<subseteq> xor_key ` take 2048 ` inject (wire s)"
    by (rule order_trans [OF client(2) image_mono])
  show "set (packets_out (server_log s)) \<subseteq> set (packets_in (client_log s)) \<union> xor_key ` take 2048 ` inject (wire s)"
  proof
    fix p assume "p \<in> set (packets_out (server_log s))"
    then obtain d where d: "d \<in> fst ` set (datagrams_in (server_log s))" and p: "p = xor_key d" using server(2) by blast
    then obtain d' where d': "d' \<in> fst ` set (datagrams_out (client_log s)) \<union> inject (wire s)" and cut: "d = take 2048 d'"
      using received_were_sent [OF to_server sizes(2)] by blast
    show "p \<in> set (packets_in (client_log s)) \<union> xor_key ` take 2048 ` inject (wire s)"
    proof (cases "d' \<in> inject (wire s)")
      case False
      then obtain q where q: "q \<in> set (packets_in (client_log s))" and "d' = xor_key q" using d' client(1) by blast
      then show ?thesis using short [OF q] by (simp add: p cut vpn_cipher.crypt_crypt)
    qed (simp add: p cut)
  qed
qed

section \<open>The UDP echo\<close>

lemma udp_asks:
  "asks (receives_up_to 1023) (udp_server_round e v)" "asks (receives_up_to 1023) (udp_main e buf argv)"
  by (simp_all add: udp_server_round_def udp_main_def run_udp_server_def run_udp_client_def receives_up_to_def Let_def
      split: option.split)

abbreviation echo_line :: string where
  "echo_line \<equiv> ''[CLIENT] Received echo: %s'' @ nl"

lemma udp_client_exec:
  assumes "length buf = 1024" and "exec body (udp_main e buf [argv0, ip, message]) rs = (tr, st)"
  shows "fst ` set (datagrams_out tr) \<subseteq> {bytes_of message} \<and> st \<noteq> Crashed \<and> all_io (- 1) (the_socket tr) tr \<and>
    (\<forall>args. printed echo_line (outs_of tr) = Some args \<longrightarrow>
      (\<exists>d\<in>fst ` set (datagrams_in tr). args = [CStr (string_of (takeWhile (\<lambda>b. b \<noteq> 0) d))]))"
  using assms zeroed_buffer [OF assms(1), of 1023]
  by (auto simp: exec_def udp_main_def run_udp_client_def Let_def filled_string received_len_def
      split: list.splits if_splits option.splits prod.splits)

lemma udp_client_anywhere:
  assumes "length buf = 1024" and p: "steps (udp_server_round eb) (udp_main e buf [argv0, ip, message]) tr q"
  shows "fst ` set (datagrams_out tr) \<subseteq> {bytes_of message}" and "q \<noteq> Undefined"
    and "all_io (- 1) (the_socket tr) tr"
    and "printed echo_line (outs_of tr) = Some args \<Longrightarrow>
      \<exists>d\<in>fst ` set (datagrams_in tr). args = [CStr (string_of (takeWhile (\<lambda>b. b \<noteq> 0) d))]"
proof -
  obtain tr' st where x: "exec (udp_server_round eb) (udp_main e buf [argv0, ip, message]) (map snd (calls_of tr)) = (tr @ tr', st)"
    and t: "calls_of tr' = []" and c: "q = Undefined \<Longrightarrow> st = Crashed"
    using udp.steps_to_stop [OF p] by blast
  note ok = udp_client_exec [OF assms(1) x, simplified no_calls [OF t] datagram_simps all_io_simps append_Nil2]
  show "fst ` set (datagrams_out tr) \<subseteq> {bytes_of message}" and "q \<noteq> Undefined"
    and "all_io (- 1) (the_socket tr) tr" using ok c by blast+
  show "printed echo_line (outs_of tr) = Some args \<Longrightarrow>
      \<exists>d\<in>fst ` set (datagrams_in tr). args = [CStr (string_of (takeWhile (\<lambda>b. b \<noteq> 0) d))]"
    using ok by (simp add: printed_append)
qed

lemma udp_server_anywhere:
  assumes "length buf = 1024" and p: "steps (udp_server_round e) (udp_main e buf [argv0]) tr q"
  shows "set (datagrams_out tr) \<subseteq> set (datagrams_in tr)" and "q \<noteq> Undefined" and "all_io (- 1) (the_socket tr) tr"
proof -
  obtain tr' st where x: "exec (udp_server_round e) (udp_main e buf [argv0]) (map snd (calls_of tr)) = (tr @ tr', st)"
    and t: "calls_of tr' = []" and c: "q = Undefined \<Longrightarrow> st = Crashed"
    using udp.steps_to_stop [OF p] by blast
  have ok: "udp_ok (tr @ tr') st" by (rule udp_server_ok [OF assms(1) x])
  then have "datagrams_in tr = datagrams_out tr @ pending_datagram st" by (simp add: udp_ok_def no_calls [OF t])
  then show "set (datagrams_out tr) \<subseteq> set (datagrams_in tr)" by simp
  show "q \<noteq> Undefined" using ok c by (auto simp: udp_ok_def)
  show "all_io (- 1) (the_socket tr) tr" using ok by (simp add: udp_ok_def no_calls [OF t] del: first_fd_append)
qed

section \<open>Properties\<close>

text \<open>C5: the tunnel over every interleaving. Whatever the schedulers of the two hosts, the network
  and the system do, at every moment each packet that the server has written to its interface is
  a packet that the client has read from its own before, unchanged; the server has sent nothing,
  and nothing has reached the client's interface; both read and write packets on the descriptor of
  their interface only, and send and receive datagrams on that of their socket only; and neither
  process has made an undefined step except where its environment hands it a descriptor of 1024
  or more or an unterminated name.\<close>

theorem vpn_tunnel_any_interleaving:
  assumes "length ccmd = 256" "length cbuf = 2048" "4 \<le> length cargv" "cargv ! 1 = ''client''"
    and "inet_pton ec (cargv ! 3) = Some a"
    and "length scmd = 256" "length sbuf = 2048" "3 \<le> length sargv" "sargv ! 1 = ''server''"
    and "net_reach (vpn_round ec cargv) (vpn_round es sargv) (vpn_main ec ccmd cbuf cargv) (vpn_main es scmd sbuf sargv) s"
  shows "set (packets_out (server_log s)) \<subseteq> set (packets_in (client_log s)) \<and>
    datagrams_out (server_log s) = [] \<and> packets_out (client_log s) = [] \<and>
    well_directed (client_log s) \<and> well_directed (server_log s) \<and>
    (client s = Undefined \<longrightarrow> env_fault (client_log s)) \<and> (server s = Undefined \<longrightarrow> env_fault (server_log s))"
  using tunnel_on_network [OF assms(1-9) closed.open_reach_inv [OF assms(10)]] by auto

text \<open>A client reads two packets and sends them; the network loses the first one.\<close>

lemma sample_tunnel:
  assumes "third_party inject"
  obtains s where "open_reach inject (vpn_round Little vpn_client_args) (vpn_round Big vpn_server_args)
      (vpn_main Little (replicate 256 0) (replicate 2048 0) vpn_client_args)
      (vpn_main Big (replicate 256 0) (replicate 2048 0) vpn_server_args) s"
    and "packets_out (server_log s) = [[7, 9]]" and "packets_in (client_log s) = [[1, 2], [7, 9]]"
proof -
  note defs = exec_def vpn_main_def vpn_round_def run_client_def run_server_def vpn_setup_eq sample_client_replies_def
    sample_server_replies_def vpn_ready_def tun_name_of_tun0 client_round_eq server_round_eq select_head_def
    client_net_eq server_net_eq write_tun_tail_def inet_pton_localhost Let_def
  obtain ctr where c: "exec (vpn_round Little vpn_client_args)
      (vpn_main Little (replicate 256 0) (replicate 2048 0) vpn_client_args) sample_client_replies =
      (ctr, Waiting (Select 5 [3, 4]))" and cs: "list_all (sent_before []) (calls_of ctr)"
    and out: "xor_key [7, 9] \<in> fst ` set (datagrams_out ctr)" and t: "packets_in ctr = [[1, 2], [7, 9]]"
    by (simp add: defs arrives_def)
  obtain str where s: "exec (vpn_round Big vpn_server_args)
      (vpn_main Big (replicate 256 0) (replicate 2048 0) vpn_server_args) sample_server_replies =
      (str, Waiting (Select 5 [3, 4]))" and ss: "list_all (sent_before ctr) (calls_of str)"
    and w: "packets_out str = [[7, 9]]"
    using image_eqI [OF _ out, where f = "take 2048"] by (simp add: defs arrives_def vpn_cipher.crypt_crypt)
  show thesis by (rule third_party.reach_exchange [OF assms, of _ _ _ ctr "[]", OF _ s cs ss]) (use c that w t in auto)
qed

theorem vpn_tunnel_any_interleaving_witness:
  "\<exists>s. net_reach (vpn_round Little vpn_client_args) (vpn_round Big vpn_server_args)
      (vpn_main Little (replicate 256 0) (replicate 2048 0) vpn_client_args)
      (vpn_main Big (replicate 256 0) (replicate 2048 0) vpn_server_args) s \<and>
    packets_out (server_log s) = [[7, 9]] \<and> [7, 9] \<in> set (packets_in (client_log s)) \<and> packets_out (client_log s) = []"
proof -
  obtain s where r: "net_reach (vpn_round Little vpn_client_args) (vpn_round Big vpn_server_args)
      (vpn_main Little (replicate 256 0) (replicate 2048 0) vpn_client_args)
      (vpn_main Big (replicate 256 0) (replicate 2048 0) vpn_server_args) s"
    and w: "packets_out (server_log s) = [[7, 9]]"
    by (rule sample_tunnel [OF closed.third_party_axioms])
  show ?thesis
    using vpn_tunnel_any_interleaving [OF _ _ _ _ inet_pton_localhost [of Little, folded vpn_args(3)] _ _ _ _ r] r w
    by auto
qed

text \<open>C22: the echo over every interleaving. Whatever the schedulers, the network and the system do, at
  every moment each datagram that the server has sent is the first 1023 bytes of the client's
  message, and if the client has printed an echo, it is the first 1023 characters of its
  message, nothing else; each process uses its own socket only, and neither has accessed memory
  outside its buffer.\<close>

theorem udp_echo_any_interleaving:
  assumes "length cbuf = 1024" "length sbuf = 1024" and z: "CHR 0x00 \<notin> set message"
    and "net_reach (udp_server_round ec) (udp_server_round es) (udp_main ec cbuf [c0, ip, message]) (udp_main es sbuf [s0]) s"
  shows "fst ` set (datagrams_out (server_log s)) \<subseteq> {take 1023 (bytes_of message)} \<and>
    (printed (''[CLIENT] Received echo: %s'' @ nl) (outs_of (client_log s)) \<in> {None, Some [CStr (take 1023 message)]}) \<and>
    all_io (- 1) (the_socket (client_log s)) (client_log s) \<and> all_io (- 1) (the_socket (server_log s)) (server_log s) \<and>
    client s \<noteq> Undefined \<and> server s \<noteq> Undefined"
proof -
  have c: "steps (udp_server_round ec) (udp_main ec cbuf [c0, ip, message]) (client_log s) (client s)"
    and sv: "steps (udp_server_round es) (udp_main es sbuf [s0]) (server_log s) (server s)"
    and from_server: "list_all (sent_before (server_log s)) (calls_of (client_log s))"
    and from_client: "list_all (sent_before (client_log s)) (calls_of (server_log s))"
    using closed.open_reach_inv [OF assms(4)] by (simp_all add: open_inv_def)
  note client = udp_client_anywhere [OF assms(1) c] and server = udp_server_anywhere [OF assms(2) sv]
  have sizes: "list_all (receives_up_to 1023 \<circ> fst) (calls_of (client_log s))"
    "list_all (receives_up_to 1023 \<circ> fst) (calls_of (server_log s))"
    using steps_asks [OF udp_asks(1) c udp_asks(2)] steps_asks [OF udp_asks(1) sv udp_asks(2)] by simp_all
  have sent: "fst ` set (datagrams_out (server_log s)) \<subseteq> {take 1023 (bytes_of message)}"
  proof -
    have "fst ` set (datagrams_out (server_log s)) \<subseteq> fst ` set (datagrams_in (server_log s))"
      by (rule image_mono [OF server(1)])
    also have "\<dots> \<subseteq> take 1023 ` fst ` set (datagrams_out (client_log s))"
      by (rule received_were_sent [OF from_client sizes(2)])
    also have "\<dots> \<subseteq> take 1023 ` {bytes_of message}" by (rule image_mono [OF client(1)])
    finally show ?thesis by simp
  qed
  have "fst ` set (datagrams_in (client_log s)) \<subseteq> take 1023 ` fst ` set (datagrams_out (server_log s))"
    by (rule received_were_sent [OF from_server sizes(1)])
  also have "\<dots> \<subseteq> take 1023 ` {take 1023 (bytes_of message)}" by (rule image_mono [OF sent])
  finally have echo: "fst ` set (datagrams_in (client_log s)) \<subseteq> {take 1023 (bytes_of message)}"
    by simp
  have "printed echo_line (outs_of (client_log s)) \<in> {None, Some [CStr (take 1023 message)]}"
  proof (cases "printed echo_line (outs_of (client_log s))")
    case (Some args)
    obtain d where "d \<in> fst ` set (datagrams_in (client_log s))" and a: "args = [CStr (string_of (takeWhile (\<lambda>b. b \<noteq> 0) d))]"
      using client(4) [OF Some] by blast
    then have "d = take 1023 (bytes_of message)" using echo by blast
    then show ?thesis using string_prefix [OF z, of 1023] by (simp only: Some a) simp
  qed simp
  with sent client(2,3) server(2,3) show ?thesis by blast
qed

lemma sample_echo:
  obtains s where "net_reach (udp_server_round Little) (udp_server_round Big)
      (udp_main Little (replicate 1024 0) [''udp'', ''127.0.0.1'', ''hello'']) (udp_main Big (replicate 1024 0) [''udp'']) s"
    and "printed (''[CLIENT] Received echo: %s'' @ nl) (outs_of (client_log s)) \<noteq> None"
proof -
  let ?a = "\<lparr>sin_port = 0, sin_addr = 0\<rparr>" and ?m = "bytes_of ''hello''"
  have m: "take 1023 ?m = ?m" by simp
  have i: "?m \<in> take 1023 ` X" if "?m \<in> X" for X by (rule image_eqI [where x = ?m]) (simp_all add: that)
  have b: "length (buffer \<lparr>sockfd = 3, buffer = replicate 1024 0\<rparr>) = 1024" by simp
  note defs = exec_def udp_main_def run_udp_client_def run_udp_server_def Let_def filled_string received_len_def
    inet_pton_localhost arrives_def m
  obtain ctr where c: "exec (udp_server_round Little) (udp_main Little (replicate 1024 0) [''udp'', ''127.0.0.1'', ''hello''])
      [reply_ret 4, reply_ret 5, reply_ret 0, reply_data ?m ?a, reply_ret 0] = (ctr, Exited 0)"
    and c1: "list_all (sent_before []) (calls_of (take 6 ctr))" "?m \<in> fst ` set (datagrams_out (take 6 ctr))"
    and c2: "\<And>log. ?m \<in> fst ` set (datagrams_out log) \<Longrightarrow> list_all (sent_before log) (calls_of (drop 6 ctr))"
    and shown: "printed (''[CLIENT] Received echo: %s'' @ nl) (outs_of ctr) \<noteq> None"
    using zeroed_buffer [of "replicate 1024 0" 1024 1023] by (simp add: defs i)
  obtain str where s: "exec (udp_server_round Big) (udp_main Big (replicate 1024 0) [''udp''])
      [reply_ret 3, reply_ret 0, reply_data ?m ?a, reply_ret 5] = (str, Waiting (Recvfrom 3 1023))"
    and ss: "\<And>log. ?m \<in> fst ` set (datagrams_out log) \<Longrightarrow> list_all (sent_before log) (calls_of str)"
    and so: "?m \<in> fst ` set (datagrams_out str)"
    by (simp add: defs i udp_server_round_eq [OF b] udp_server_round_eq)
  show thesis
    by (rule closed.reach_exchange [of _ _ _ "take 6 ctr" "drop 6 ctr", OF _ s c1(1) ss [OF c1(2)] c2 [OF so]])
       (use c shown that in auto)
qed

theorem udp_echo_any_interleaving_witness:
  "\<exists>s. net_reach (udp_server_round Little) (udp_server_round Big)
      (udp_main Little (replicate 1024 0) [''udp'', ''127.0.0.1'', ''hello'']) (udp_main Big (replicate 1024 0) [''udp'']) s \<and>
    printed (''[CLIENT] Received echo: %s'' @ nl) (outs_of (client_log s)) = Some [CStr ''hello'']"
proof -
  obtain s where r: "net_reach (udp_server_round Little) (udp_server_round Big)
      (udp_main Little (replicate 1024 0) [''udp'', ''127.0.0.1'', ''hello'']) (udp_main Big (replicate 1024 0) [''udp'']) s"
    and p: "printed (''[CLIENT] Received echo: %s'' @ nl) (outs_of (client_log s)) \<noteq> None"
    by (rule sample_echo)
  have "printed (''[CLIENT] Received echo: %s'' @ nl) (outs_of (client_log s)) \<in> {None, Some [CStr (take 1023 ''hello'')]}"
    using udp_echo_any_interleaving [OF _ _ _ r] by simp
  then show ?thesis using r p by auto
qed

end
