(* ===== verification/Spy.thy ===== *)
theory Spy
  imports Exchange VpnProgress
begin

text \<open>
  The VPN of simple_vpn.c on a network that a third party reads and writes. The spy knows some
  packets and sees every datagram; it can combine what it has by XOR, cutting and appending, and
  send the result to either process. It is not given the key.
\<close>

section \<open>What the spy can send\<close>

inductive_set spied :: "bytes set \<Rightarrow> bytes set \<Rightarrow> bytes set"
  for K :: "bytes set" and W :: "bytes set" where
  known: "p \<in> K \<Longrightarrow> p \<in> spied K W"
| seen: "c \<in> W \<Longrightarrow> c \<in> spied K W"
| combined: "x \<in> spied K W \<Longrightarrow> y \<in> spied K W \<Longrightarrow> xor_bytes x y \<in> spied K W"
| cut: "x \<in> spied K W \<Longrightarrow> take n x \<in> spied K W"
| appended: "x \<in> spied K W \<Longrightarrow> y \<in> spied K W \<Longrightarrow> x @ y \<in> spied K W"

lemma spied_mono: "W \<subseteq> W' \<Longrightarrow> spied K W \<subseteq> spied K W'"
proof
  fix x assume "W \<subseteq> W'" and "x \<in> spied K W"
  from this(2,1) show "x \<in> spied K W'" by (induction rule: spied.induct) (auto intro: spied.intros)
qed

interpretation spy: third_party "spied K" for K
  by unfold_locales (rule spied_mono)

lemma repeated: "x \<in> spied K W \<Longrightarrow> concat (replicate (Suc n) x) \<in> spied K W"
  by (induction n) (auto intro: appended)

text \<open>One known packet of at least 16 bytes gives the key, and with it every key stream.\<close>

lemma nth_concat_replicate: "i < n * length xs \<Longrightarrow> concat (replicate n xs) ! i = xs ! (i mod length xs)"
proof (induction n arbitrary: i)
  case (Suc n)
  show ?case
  proof (cases "i < length xs")
    case True
    then show ?thesis by (simp add: nth_append)
  next
    case False
    then have "(i - length xs) mod length xs = i mod length xs" by (simp add: le_mod_geq)
    then show ?thesis using Suc False by (simp add: nth_append)
  qed
qed simp

lemma key_stream_repeats: "key_stream n = take n (concat (replicate (Suc n) shared_key))"
proof (rule nth_equalityI)
  have l: "length (concat (replicate (Suc n) shared_key)) = 16 * Suc n"
    by (simp only: length_concat map_replicate sum_list_replicate length_shared_key) simp
  then show "length (key_stream n) = length (take n (concat (replicate (Suc n) shared_key)))"
    by (simp only: key_stream_def length_map length_take) simp
  fix i assume "i < length (key_stream n)"
  then have i: "i < n" by (simp add: key_stream_def)
  then have "concat (replicate (Suc n) shared_key) ! i = shared_key ! (i mod 16)"
    using nth_concat_replicate [of i "Suc n" shared_key] by simp
  then show "key_stream n ! i = take n (concat (replicate (Suc n) shared_key)) ! i"
    using i by (simp add: key_stream_def del: replicate_Suc)
qed

lemma key_is_spied:
  assumes "p \<in> spied K W" and "xor_key p \<in> spied K W" and "16 \<le> length p"
  shows "shared_key \<in> spied K W"
proof -
  have "take 16 (xor_bytes (xor_key p) p) \<in> spied K W" using assms(1,2) by (intro cut combined)
  then show ?thesis using known_packet_reveals_key [of p] assms(3) by simp
qed

lemma encryption_is_spied:
  assumes "shared_key \<in> spied K W" and "q \<in> spied K W"
  shows "xor_key q \<in> spied K W"
  unfolding xor_key_def key_stream_repeats using assms by (intro combined cut repeated)

text \<open>A packet can be changed without the key.\<close>

lemma xor_bytes_swap: "length x = length y \<Longrightarrow> length y = length z \<Longrightarrow>
  xor_bytes (xor_bytes x y) z = xor_bytes (xor_bytes x z) y"
  by (induction x y z rule: list_induct3) (simp_all add: xor.assoc xor.commute xor.left_commute)

lemma xor_key_mask:
  assumes "length d = length p"
  shows "xor_bytes (xor_key p) d = xor_key (xor_bytes p d)"
  using xor_bytes_swap [of p "key_stream (length p)" d] assms
  by (simp add: xor_key_def key_stream_def)

section \<open>The server takes what the spy sends\<close>

lemma server_delivers:
  assumes i: "server_inv v h" and sel: "selecting v c" and "tun_fd v \<noteq> sock_fd v" and "0 \<le> ret q"
  shows "\<exists>tr v'. run (server_round e v) [reply_ready [sock_fd v], q, reply_ret 0] = (tr, [], Looped v') \<and>
    calls_of tr = [(c, reply_ready [sock_fd v]), (Recvfrom (sock_fd v) 2048, q),
      (Write (tun_fd v) (xor_key (received 2048 q)), reply_ret 0)]"
proof -
  have v: "length (vpn_buffer v) = 2048" "0 \<le> tun_fd v" "0 \<le> sock_fd v" using i by (simp_all add: loop_defs)
  show ?thesis
    using sel assms(3,4)
    by (simp add: server_round_eq [OF v] server_net_eq [OF v(1)] select_head_def write_tun_tail_def selecting_def)
qed

text \<open>In the state \<open>s\<close> the server can be made to write the packet \<open>q\<close> to its interface next.\<close>

definition can_write :: "(('c, 's) network \<Rightarrow> bool) \<Rightarrow> ('c, 's) network \<Rightarrow> bytes \<Rightarrow> bool" where
  "can_write reach s q \<longleftrightarrow>
     (\<exists>evs m. reach (s\<lparr>server := m, server_log := server_log s @ evs\<rparr>) \<and> 
      tun_out (interface (server_log s)) evs = [q])"

lemma forged_is_written:
  assumes "length cmd = 256" and "length buf = 2048" and "3 \<le> length argv" and "argv ! 1 = ''server''"
    and reach: "open_reach (spied K) cbody (vpn_round e argv) cp (vpn_main e cmd buf argv) s"
    and waits: "server s = Sys (Select n fds) k" and "distinct (opened (server_log s))"
    and f: "f \<in> spied K (wire s)" and l: "length f \<le> 2048"
  shows "can_write (open_reach (spied K) cbody (vpn_round e argv) cp (vpn_main e cmd buf argv)) s (xor_key f)"
proof -
  let ?p = "vpn_main e cmd buf argv"
  have m: "vpn_round e argv = server_round e" using assms(4) by (simp add: vpn_round_def)
  have s: "steps (server_round e) ?p (server_log s) (Sys (Select n fds) k)"
    using spy.open_reach_inv [OF reach] by (simp add: open_inv_def m waits)
  have "exec (vpn_round e argv) ?p (map snd (calls_of (server_log s))) = (server_log s, Waiting (Select n fds))"
    unfolding m by (rule vpn_server.exec_path [OF s]) (simp_all add: stopped_at_def)
  from server_at_head [OF assms(1-4) this] obtain v
    where i: "server_inv v (server_log s)" and sel: "selecting v (Select n fds)" and h: "steps (server_round e) ?p (server_log s) (Again v)" .
  let ?q = "reply_data f \<lparr>sin_port = 0, sin_addr = 0\<rparr>"
  have ne: "tun_fd v \<noteq> sock_fd v" and tun: "interface (server_log s) = tun_fd v" using assms(7) i by (simp_all add: loop_defs)
  have q: "received 2048 ?q = f" using l by (simp add: received_def)
  obtain tr v' where r: "run (server_round e v) [reply_ready [sock_fd v], ?q, reply_ret 0] = (tr, [], Looped v')"
    and c: "calls_of tr = [(Select n fds, reply_ready [sock_fd v]), (Recvfrom (sock_fd v) 2048, ?q),
      (Write (tun_fd v) (xor_key f), reply_ret 0)]"
    using server_delivers [OF i sel ne, of ?q e] unfolding q by auto
  obtain x where "steps (server_round e) (server_round e v) tr x"
    using run_steps [OF r] by blast
  then have "steps (server_round e) ?p (server_log s @ tr) x" using h by (blast intro: steps_trans steps_again)
  then have x: "steps (vpn_round e argv) (server s) tr x"
    unfolding waits m by (rule steps_resume [OF s]) (use c in auto)
  have "list_all (arrives (fst ` set (datagrams_out (client_log s)) \<union> spied K (wire s))) (calls_of tr)"
    using f l by (auto simp: c arrives_def received_def intro!: image_eqI [where x = f])
  from spy.server_path [OF x reach refl this]
  show ?thesis unfolding can_write_def
    by (intro exI [of _ tr] exI [of _ x] conjI) (simp_all add: tun_out_def c tun)
qed

section \<open>Properties\<close>

lemma spied_nothing: "spied {} {} = {}"
proof -
  have "x \<in> spied {} {} \<Longrightarrow> False" for x by (induction rule: spied.induct) auto
  then show ?thesis by blast
qed

text \<open>C7: what the tunnel keeps when a third party reads and writes the network. At every moment each
  packet that the server has written is one that the client has read, or its encryption is
  something the spy could put together from the packets it knows and the datagrams it has seen;
  only such packets reach the client's interface; a spy that knows nothing and has seen nothing
  gets nothing through. Packets are on the interface and datagrams on the socket of a process and
  on no other descriptor. The server sends nothing whatever it receives, and no datagram drives
  either process into an undefined step.\<close>

theorem vpn_tunnel_with_spy:
  assumes "length ccmd = 256" "length cbuf = 2048" "4 \<le> length cargv" "cargv ! 1 = ''client''"
    and "inet_pton ec (cargv ! 3) = Some a"
    and "length scmd = 256" "length sbuf = 2048" "3 \<le> length sargv" "sargv ! 1 = ''server''"
    and "open_reach (spied K) (vpn_round ec cargv) (vpn_round es sargv)
      (vpn_main ec ccmd cbuf cargv) (vpn_main es scmd sbuf sargv) s"
  shows "(\<forall>q\<in>set (packets_out (server_log s)). q \<in> set (packets_in (client_log s)) \<or> xor_key q \<in> spied K (wire s)) \<and>
    (\<forall>q\<in>set (packets_out (client_log s)). xor_key q \<in> spied K (wire s)) \<and>
    (K = {} \<and> packets_in (client_log s) = [] \<longrightarrow> packets_out (server_log s) = [] \<and> packets_out (client_log s) = []) \<and>
    datagrams_out (server_log s) = [] \<and> well_directed (client_log s) \<and> well_directed (server_log s) \<and>
    (client s = Undefined \<longrightarrow> env_fault (client_log s)) \<and> (server s = Undefined \<longrightarrow> env_fault (server_log s))"
proof -
  note tunnel = tunnel_on_network [OF assms(1-9) spy.open_reach_inv [OF assms(10)]]
  have forged: "xor_key q \<in> spied K (wire s)" if "q \<in> xor_key ` take 2048 ` spied K (wire s)" for q
    using that by (auto simp: vpn_cipher.crypt_crypt intro: cut)
  have "wire s = {}" if "packets_in (client_log s) = []" using tunnel(3,4) that carried_sent [of "client_log s"] carried_sent [of "server_log s"] by (simp add: wire_def)
  then have "packets_out (server_log s) = [] \<and> packets_out (client_log s) = []" if "K = {}" "packets_in (client_log s) = []"
    using tunnel(1,2) that by (simp add: spied_nothing)
  then show ?thesis using tunnel(1-3,6-9) forged by blast
qed

text \<open>C6: one known packet gives the tunnel away. In every reachable state in which the server waits
  in \<open>select\<close> with an interface and a socket of different descriptors, and the client has sent the
  packet \<open>p\<close> with success, a spy that knows some bytes of its length can make the server write \<open>p\<close>
  changed by XOR with them to its interface, and a spy that knows \<open>p\<close> itself, of at least 16 bytes,
  can make it write there any packet \<open>q\<close> of its choice of at most 2048 bytes.\<close>

theorem vpn_known_packet_gives_tunnel_away:
  assumes "length ccmd = 256" "length cbuf = 2048" "4 \<le> length cargv" "cargv ! 1 = ''client''"
    and "inet_pton ec (cargv ! 3) = Some a"
    and "length scmd = 256" "length sbuf = 2048" "3 \<le> length sargv" "sargv ! 1 = ''server''"
    and "open_reach (spied K) (vpn_round ec cargv) (vpn_round es sargv)
      (vpn_main ec ccmd cbuf cargv) (vpn_main es scmd sbuf sargv) s"
    and "server s = Sys (Select n fds) k" and "distinct (opened (server_log s))"
    and sent: "xor_key p \<in> set (carried (client_log s))"
  shows "(change \<in> K \<and> length change = length p \<longrightarrow>
      can_write (open_reach (spied K) (vpn_round ec cargv) (vpn_round es sargv)
        (vpn_main ec ccmd cbuf cargv) (vpn_main es scmd sbuf sargv)) s (xor_bytes p change)) \<and>
    (p \<in> K \<and> 16 \<le> length p \<and> q \<in> K \<and> length q \<le> 2048 \<longrightarrow>
      can_write (open_reach (spied K) (vpn_round ec cargv) (vpn_round es sargv)
        (vpn_main ec ccmd cbuf cargv) (vpn_main es scmd sbuf sargv)) s q)"
proof -
  note tunnel = tunnel_on_network [OF assms(1-9) spy.open_reach_inv [OF assms(10)]]
  note served = forged_is_written [OF assms(6-12)]
  have "xor_key p \<in> xor_key ` set (packets_in (client_log s))" using tunnel(4) sent carried_sent by blast
  then have l: "length p \<le> 2048" using tunnel(5) by (auto simp: vpn_cipher.crypt_inject)
  have c: "xor_key p \<in> spied K (wire s)" using sent by (auto simp: wire_def intro: seen)
  show ?thesis
  proof (intro conjI impI; elim conjE)
    assume "change \<in> K" and m: "length change = length p"
    then have "xor_key (xor_bytes p change) \<in> spied K (wire s)"
      unfolding xor_key_mask [OF m, symmetric] by (intro combined c known)
    from served [OF this] show "can_write (open_reach (spied K) (vpn_round ec cargv) (vpn_round es sargv)
        (vpn_main ec ccmd cbuf cargv) (vpn_main es scmd sbuf sargv)) s (xor_bytes p change)"
      using l by (simp add: vpn_cipher.crypt_crypt)
  next
    assume "p \<in> K" "16 \<le> length p" "q \<in> K" and lq: "length q \<le> 2048"
    then have "xor_key q \<in> spied K (wire s)"
      by (intro encryption_is_spied [OF key_is_spied [OF _ c]] known)
    from served [OF this] show "can_write (open_reach (spied K) (vpn_round ec cargv) (vpn_round es sargv)
        (vpn_main ec ccmd cbuf cargv) (vpn_main es scmd sbuf sargv)) s q"
      using lq by (simp add: vpn_cipher.crypt_crypt)
  qed
qed

text \<open>The client sends one packet of 16 bytes; the server waits.\<close>

abbreviation sample_reach :: "bytes set \<Rightarrow> (vpn_vars, vpn_vars) network \<Rightarrow> bool" where
  "sample_reach K \<equiv> open_reach (spied K) (vpn_round Little vpn_client_args) (vpn_round Big vpn_server_args)
      (vpn_main Little (replicate 256 0) (replicate 2048 0) vpn_client_args)
      (vpn_main Big (replicate 256 0) (replicate 2048 0) vpn_server_args)"

lemma sample_spied:
  fixes p :: bytes
  assumes "length p \<le> 2048"
  obtains s k where "sample_reach K s" and "server s = Sys (Select 5 [3, 4]) k" and "opened (server_log s) = [3, 4]"
    and "packets_in (client_log s) = [p]" and "set (carried (client_log s)) = {xor_key p}"
proof -
  note defs = exec_def vpn_main_def vpn_round_def run_client_def run_server_def vpn_setup_eq
    vpn_ready_def tun_name_of_tun0 client_round_eq server_round_eq select_head_def
    client_net_eq inet_pton_localhost Let_def arrives_def
  obtain ctr where c: "exec (vpn_round Little vpn_client_args)
      (vpn_main Little (replicate 256 0) (replicate 2048 0) vpn_client_args)
      (vpn_ready 3 4 @ [reply_ready [3], reply_data p \<lparr>sin_port = 0, sin_addr = 0\<rparr>, reply_ret 0]) =
      (ctr, Waiting (Select 5 [3, 4]))" and cs: "list_all (sent_before []) (calls_of ctr)"
    and t: "packets_in ctr = [p]" "set (carried ctr) = {xor_key p}"
    using assms by (simp add: defs)
  obtain str where s: "exec (vpn_round Big vpn_server_args)
      (vpn_main Big (replicate 256 0) (replicate 2048 0) vpn_server_args) (vpn_ready 3 4 @ [reply_ret 0]) =
      (str, Waiting (Select 5 [3, 4]))" and ss: "list_all (sent_before ctr) (calls_of str)" and o: "opened str = [3, 4]"
    by (simp add: defs)
  show thesis
    by (rule spy.reach_exchange [of _ _ _ ctr "[]", OF _ s cs ss])
       (use c that t o in \<open>auto simp: stopped_at_def\<close>)
qed

theorem vpn_tunnel_with_spy_witness:
  "\<exists>s. sample_reach {} s \<and> packets_out (server_log s) = [[7, 9]] \<and> packets_in (client_log s) = [[1, 2], [7, 9]] \<and>
    (\<forall>q\<in>set (packets_out (server_log s)). q \<in> set (packets_in (client_log s)) \<or> xor_key q \<in> spied {} (wire s))"
proof -
  obtain s where r: "sample_reach {} s" and t: "packets_out (server_log s) = [[7, 9]]"
    "packets_in (client_log s) = [[1, 2], [7, 9]]"
    by (rule sample_tunnel [OF spy.third_party_axioms])
  show ?thesis
    using vpn_tunnel_with_spy [OF _ _ _ _ inet_pton_localhost [of Little, folded vpn_args(3)] _ _ _ _ r] r t
    by auto
qed

theorem vpn_known_packet_gives_tunnel_away_witness:
  "\<exists>s. sample_reach {replicate 16 1, [6, 6, 6]} s \<and> packets_in (client_log s) = [replicate 16 1] \<and>
    can_write (sample_reach {replicate 16 1, [6, 6, 6]}) s [6, 6, 6]"
proof -
  let ?p = "replicate 16 1 :: bytes"
  obtain s k where r: "sample_reach {?p, [6, 6, 6]} s" and w: "server s = Sys (Select 5 [3, 4]) k"
    and o: "opened (server_log s) = [3, 4]" and t: "packets_in (client_log s) = [?p]"
    and d: "set (carried (client_log s)) = {xor_key ?p}"
    by (rule sample_spied [of ?p]) simp
  have "distinct (opened (server_log s))" and "xor_key ?p \<in> set (carried (client_log s))"
    by (simp_all add: o d)
  from vpn_known_packet_gives_tunnel_away [OF _ _ _ _ inet_pton_localhost [of Little, folded vpn_args(3)] _ _ _ _ r w this, of "[]" "[6, 6, 6]"]
  have "can_write (sample_reach {?p, [6, 6, 6]}) s [6, 6, 6]" by simp
  then show ?thesis using r t by blast
qed

end
