(* ===== verification/Spec2Isabelle.thy ===== *)
theory Spec2Isabelle
  imports Checksum IpHeader Esp EspMachine Posix TcpEcho UdpEcho Sniffer WireGuard WgMachine SimpleVpn VpnProgress
    Exchange Spy
begin

text \<open>
  Verification of the networking programs of the repository: the seven C programs under
  src/interview-prep/coding-problems and the VPN under
  src/interview-prep/sample-projects/vpn-implementation. Each is a program of its own, with its
  own \<open>main\<close>; what they share is the machine (bytes in memory, byte order, output) and the
  system calls, which are theories of their own here.

  \<^bold>\<open>Theories.\<close>
  \<^item> \<open>Prelude\<close>: byte orders, loads and stores into byte-addressed objects (\<open>None\<close> is an access
    outside the object), C strings, \<open>memset\<close>, \<open>strncpy\<close>, the layout of structures; the lemma collections \<open>mem_simps\<close> and
    \<open>codec_simps\<close>.
  \<^item> \<open>Stdio\<close>: output calls as values (\<open>out\<close>), the text of a format (\<open>c_format\<close>), \<open>sprintf\<close> and
    \<open>snprintf\<close>, decimal text of octets; \<open>printed\<close> finds the arguments of a line of an output.
  \<^item> \<open>HexDump\<close>: the digits that \<open>%02X\<close> and \<open>%08X\<close> print, and \<open>hex_bytes\<close>, which reads them back.
  \<^item> \<open>Simulation\<close>: the locale \<open>simulation\<close>: a component that does step by step what an abstract
    machine does also does it over every run.
  \<^item> \<open>Checksum\<close>: 05_checksum_calculator.c. \<open>calculate_checksum\<close> and
    \<open>calculate_tcp_udp_checksum\<close> against the end-around-carry sum of RFC 1071; the locale
    \<open>inet_checksum\<close> states what a client relies on.
  \<^item> \<open>IpHeader\<close>: 04_ip_header_parser.c. The header as a record and as bytes, \<open>validate_checksum\<close>,
    \<open>parse_ip_header\<close> with every output line; \<open>inet_checksum\<close> is interpreted for this file's copy.
  \<^item> \<open>Esp\<close>: 10_ipsec_esp_parser.c. The security associations (\<open>sad\<close>: the array and the count),
    \<open>add_sa\<close>, \<open>lookup_sa\<close>, \<open>check_replay\<close>, \<open>parse_esp_packet\<close>; the locales \<open>first_wins_table\<close>,
    \<open>replay_table\<close> and \<open>replay_counter\<close> hold the laws of a bounded table and of replay protection.
  \<^item> \<open>EspMachine\<close>: any sequence of \<open>add_sa\<close> and \<open>parse_esp_packet\<close> (\<open>esp_op\<close>) against a machine with
    a number of entries and a counter per SPI; \<open>simulation\<close> is interpreted for it.
  \<^item> \<open>WireGuard\<close>: 11_wireguard_concepts.c. Peers, the three packed messages, the hex dump.
  \<^item> \<open>WgMachine\<close>: any sequence of handshakes and data packets between peers (\<open>wg_op\<close>) against a
    machine of indices and counters, with \<open>wg_decode\<close> reading the messages from their bytes;
    \<open>simulation\<close> is interpreted for it too.
  \<^item> \<open>Posix\<close>: programs as trees of system calls and output calls; the transition relation
    \<open>steps\<close>, the executor \<open>exec\<close> on a list of replies, and the locales \<open>waiting_loop\<close> and
    \<open>loop_invariant\<close> for endless loops. What an execution has done is read off its trace
    per descriptor: \<open>first_fd\<close> is the descriptor that the first call of a kind returned
    (\<open>the_socket\<close> for \<open>socket\<close>, \<open>connection\<close> in \<open>TcpEcho\<close> for \<open>accept\<close>, \<open>interface\<close> in
    \<open>SimpleVpn\<close> for \<open>open\<close>), and \<open>all_io\<close> says that every read, write, send and receive of the
    trace is on the interface and the socket given, each of its kind.
  \<^item> \<open>TcpEcho\<close>, \<open>UdpEcho\<close>, \<open>Sniffer\<close>: 01_tcp_echo_server.c, 02_udp_echo_server.c,
    03_raw_socket_sniffer.c as such programs, one definition per round of the loop.
  \<^item> \<open>SimpleVpn\<close>: simple_vpn.c, with the locale \<open>stream_cipher\<close> for its XOR cipher.
  \<^item> \<open>VpnProgress\<close>: what client and server do next whenever they wait in \<open>select\<close>.
  \<^item> \<open>Network\<close>: two processes and a network that may lose, duplicate and reorder, and on which a
    third party may send datagrams (\<open>open_step\<close>, \<open>open_reach\<close>; \<open>net_reach\<close> without a third party);
    \<open>wire\<close> is what has been seen on the network, the datagrams of the successful \<open>sendto\<close> calls;
    the locale \<open>third_party\<close> has the invariant that each process follows its own path and receives
    only what the other or the third party has sent; \<open>asks\<close> bounds the calls of a program.
  \<^item> \<open>Exchange\<close>: the VPN and the UDP echo with both ends on the network without a third party.
  \<^item> \<open>Spy\<close>: the VPN on a network with a spy, who combines the packets it knows and the datagrams it
    sees (\<open>spied\<close>); \<open>third_party\<close> is interpreted for it.
  \<^item> this theory: what the parser and the sniffer say about the same packet.

  \<^bold>\<open>Correspondence.\<close> A C function is a definition of the same name where Isabelle allows it; a
  loop is a recursive function or, for \<open>while (1)\<close>, a round that ends in \<open>Again\<close>. Pointers are
  the objects behind them: a function that writes to an object returns it updated. Machine
  integers have their width and wrap; an \<open>int\<close> that cannot overflow in the code is an \<open>int\<close> here,
  and where the code can overflow a signed integer the result is \<open>None\<close> (\<open>packet_count\<close>,
  \<open>payload_len\<close>).
  Programs without system calls return \<open>None\<close> on an undefined access, the others go to
  \<open>Undefined\<close>. Both byte orders are covered by the argument of type \<open>endian\<close>. The replies of the
  system are arbitrary: a property of an execution holds for every list of replies, and an
  execution may end while it waits for a reply.

  \<^bold>\<open>Bounds and fuel.\<close> \<open>exec\<close> runs at most one round more than there are replies; every loop waits
  for at least one reply per round (\<open>round_consumes\<close>), so this is always enough
  (\<open>exec_not_looped\<close>), and the executions are exactly the paths of \<open>steps\<close>
  (\<open>exec_iff_steps\<close>). \<open>sum_words\<close> and \<open>fold_sum\<close> are proved to terminate. The 32-bit sum of the
  checksum is exact up to 131074 bytes, which is the bound of \<open>checksum_is_rfc1071\<close>.

  \<^bold>\<open>What the lemmas show.\<close> For the checksum: equivalence with RFC 1071 (the odd last byte
  followed by a zero byte), except for odd lengths on a big-endian host, where the code sums other
  data; byte order independence, detection of word errors. For the parsers: memory safety, the
  values of the wire in the report line by line, every early return, and dumps that read back as the
  bytes. For ESP: refinement of a receiver with one counter per SPI, packet by packet and over
  whole runs in which entries are added too; no packet is accepted twice, verdicts never improve, packets in order get through. For WireGuard:
  whole runs refine a machine of indices and counters, and no nonce is used twice as long as the
  random session indices of the peers differ. For the servers: what is sent is what was received,
  for every behaviour of the system, on the client's connection or to the sender, and descriptors
  are closed once. For the VPN: the tunnel is transparent, also in every interleaving of its two
  ends, a ready descriptor is served, what an eavesdropper learns, and what a third party on the
  network can and cannot have written. Where the code does not do what its text says, the property
  states what it does.

  The operations of the two machines may come in any order, but a caller passes a length between 0
  and the size of its buffer (\<open>esp_allowed\<close>), and \<open>malloc\<close> succeeds for what is sent (\<open>wg_allowed\<close>);
  \<open>esp_database_keeps_shape\<close> does without. The bound of $2^{64}$ data packets in
  \<open>wg_program_fresh_nonces\<close> is the number of values of the 64-bit counter; handshakes are not
  counted.

  \<^bold>\<open>Parameters.\<close> \<open>rand\<close> is a function on a generator state, \<open>malloc\<close> a function from the size to
  a block or \<open>None\<close>; the contents of uninitialised variables are arguments. Nothing is assumed of
  them except where a property says so.

  \<^bold>\<open>Not modelled.\<close> The socket structures are their fields (family, port and address), not their
  bytes; \<open>errno\<close> and the text that \<open>perror\<close> adds to its argument; the encoding of the output by
  the terminal; a network with more than one client (the properties of one process hold for
  every number of senders, those of \<open>Exchange\<close> and \<open>Spy\<close> for one client). The spy of \<open>Spy\<close>
  combines bytes by XOR, cutting and appending only; it does not guess. The
  markdown documents contain no program. \<open>esp_trailer_t\<close> and the cookie message of WireGuard are
  declared or mentioned in the code and never used by it.
\<close>

section \<open>The sniffer and the parser on the same packet\<close>

text \<open>Two outputs have the formats \<open>f\<close> and \<open>g\<close>, with the same arguments.\<close>

definition same_values :: "string \<Rightarrow> out list \<Rightarrow> string \<Rightarrow> out list \<Rightarrow> bool" where
  "same_values f xs g ys \<longleftrightarrow> printed f xs \<noteq> None \<and> printed f xs = printed g ys"

text \<open>The report of the sniffer on a header.\<close>

definition sniffed_view :: "endian \<Rightarrow> ip_header \<Rightarrow> out list" where
  "sniffed_view e h =
    [Printf nl [],
     Printf (''IP Header'' @ nl) [],
     Printf (''   |-Version              : %d'' @ nl) [of_u (drop_bit 4 (version_ihl h))],
     Printf (''   |-Header Length        : %d DWORDS (%d Bytes)'' @ nl)
       [of_u (version_ihl h AND 0x0F), of_u ((ucast (version_ihl h AND 0x0F) :: u32) * 4)],
     Printf (''   |-Type Of Service      : %d'' @ nl) [of_u (tos h)],
     Printf (''   |-Total Length         : %d Bytes'' @ nl) [of_u (ntoh e (total_length h))],
     Printf (''   |-Identification       : %d'' @ nl) [of_u (ntoh e (identification h))],
     Printf (''   |-TTL                  : %d'' @ nl) [of_u (ttl h)],
     Printf (''   |-Protocol             : %d'' @ nl) [of_u (ip_protocol h)],
     Printf (''   |-Checksum             : 0x%.4x'' @ nl) [of_u (ntoh e (ip_checksum h))],
     Printf (''   |-Source IP            : %s'' @ nl) [CStr (inet_ntoa e (source_ip h))],
     Printf (''   |-Destination IP       : %s'' @ nl) [CStr (inet_ntoa e (dest_ip h))]]"

lemma sniffed_ip_header_view:
  assumes "length eth = 14"
  shows "sniffed_ip_header e (eth @ ip_header_bytes e h @ rest) = Some (sniffed_view e h)"
proof -
  let ?p = "ip_header_bytes e h @ rest"
  have l8: "load8 (eth @ ?p) (14 + k) = load8 ?p k" for k
    using assms by (auto simp: load8_def nth_append)
  have l: "load_obj n d (eth @ ?p) (14 + k) = load_obj n d ?p k" for n k and d :: "bytes \<Rightarrow> 'b"
    using load_obj_drop [of 14 "eth @ ?p" n d k] assms by simp
  have o: "load8 (eth @ ?p) 14 = load8 ?p 0" "load8 (eth @ ?p) 15 = load8 ?p (Suc 0)"
    "load16 e (eth @ ?p) 16 = load16 e ?p 2" "load16 e (eth @ ?p) 18 = load16 e ?p 4"
    "load8 (eth @ ?p) 22 = load8 ?p 8" "load8 (eth @ ?p) 23 = load8 ?p 9"
    "load16 e (eth @ ?p) 24 = load16 e ?p 10" "load32 e (eth @ ?p) 26 = load32 e ?p 12"
    "load32 e (eth @ ?p) 30 = load32 e ?p 16"
    using l8 [of 0] l8 [of 1] l8 [of 8] l8 [of 9]
      l [of 2 "dec e" 2] l [of 2 "dec e" 4] l [of 2 "dec e" 10] l [of 4 "dec e" 12] l [of 4 "dec e" 16]
    by (simp_all add: load16_def load32_def)
  show ?thesis by (simp add: sniffed_ip_header_def sniffed_view_def o ip_view Let_def)
qed

lemma dotted_both_ways:
  "dotted (ip_octets (dec e [a, b, c, d])) = inet_ntoa e (dec e [a, b, c, d]) \<longleftrightarrow>
     e = Little \<or> [a, b, c, d] = [d, c, b, a]"
proof -
  have inj: "dotted [i, j, k, l] = dotted [i', j', k', l'] \<longleftrightarrow> [i, j, k, l] = [i', j', k', l']" for i j k l i' j' k' l'
    using dotted_octets_dotted by metis
  show ?thesis
    by (cases e) (auto simp: ip_octets_dec inet_ntoa_def enc_dec inj word_unat_eq_iff)
qed

lemma version_and_length:
  fixes vi :: u8
  shows "drop_bit 4 vi AND 0x0F = 4 \<Longrightarrow> uint (drop_bit 4 vi) = 4"
    and "uint ((ucast (vi AND 0x0F) :: u32) * 4) = uint ((vi AND 0x0F) * 4)"
proof -
  have lt: "uint vi div 16 < 16" "0 \<le> uint vi div 16" using uint_lt2p [of vi] by (simp_all add: pos_imp_zdiv_nonneg_iff)
  have d: "uint (drop_bit 4 vi) = uint vi div 16" by (rule header_words)
  have "drop_bit 4 vi AND 0x0F = take_bit 4 (drop_bit 4 vi)" by (simp add: take_bit_eq_mask mask_eq_exp_minus_1)
  then have "uint (drop_bit 4 vi AND 0x0F) = uint (drop_bit 4 vi) mod 16"
    by (simp add: unsigned_take_bit_eq) (simp add: take_bit_eq_mod)
  then show "drop_bit 4 vi AND 0x0F = 4 \<Longrightarrow> uint (drop_bit 4 vi) = 4"
    using lt by (simp add: d)
  have m: "unat (vi AND 0x0F) = unat vi mod 16" using unat_and_low [of vi 4] by (simp add: mask_eq_exp_minus_1)
  have "unat ((ucast (vi AND 0x0F) :: u32) * 4) = 4 * (unat vi mod 16)"
    by (simp add: unat_word_ariths unat_ucast m)
  then show "uint ((ucast (vi AND 0x0F) :: u32) * 4) = uint ((vi AND 0x0F) * 4)"
    using header_length_value [of vi] by (simp add: uint_nat)
qed

text \<open>C23: the two programs that read IPv4 headers agree. On every packet that the parser accepts,
  behind any Ethernet header, both report the same version, header length in words and bytes,
  type of service, total length, identification, time to live, protocol number and checksum, on
  either host: all fields that both report, but for the addresses. They show the same source
  address exactly on a little-endian host, or when the address reads the same in both directions,
  and likewise the same destination address.\<close>

theorem parser_and_sniffer_agree:
  assumes "length eth = 14" and "drop_bit 4 (p ! 0) AND 0x0F = 4" and "\<not> p ! 0 AND 0x0F < 5"
    and "4 * int (unat (p ! 0) mod 16) \<le> len" and "4 * (unat (p ! 0) mod 16) \<le> length p"
  shows "\<exists>sniffed parsed x. sniffed_ip_header e (eth @ p) = Some sniffed \<and> parse_ip_header e p len = Some (parsed, p) \<and>
    same_values (''   |-Version              : %d'' @ nl) sniffed
      (''['' @ check_mark @ ''] Version: %d (IPv4)'' @ nl) parsed \<and>
    same_values (''   |-Header Length        : %d DWORDS (%d Bytes)'' @ nl) sniffed
      (''['' @ check_mark @ ''] IHL: %d (Header Length: %d bytes)'' @ nl) parsed \<and>
    same_values (''   |-Type Of Service      : %d'' @ nl) sniffed (nl @ ''Type of Service: 0x%02X'' @ nl) parsed \<and>
    same_values (''   |-Total Length         : %d Bytes'' @ nl) sniffed (nl @ ''Total Length: %d bytes'' @ nl) parsed \<and>
    printed (''   |-Identification       : %d'' @ nl) sniffed = Some [x] \<and>
    printed (nl @ ''Identification: 0x%04X (%d)'' @ nl) parsed = Some [x, x] \<and>
    same_values (''   |-TTL                  : %d'' @ nl) sniffed (nl @ ''Time To Live (TTL): %d'' @ nl) parsed \<and>
    same_values (''   |-Protocol             : %d'' @ nl) sniffed (nl @ ''Protocol: %d '') parsed \<and>
    same_values (''   |-Checksum             : 0x%.4x'' @ nl) sniffed (nl @ ''Header Checksum: 0x%04X'' @ nl) parsed \<and>
    (same_values (''   |-Source IP            : %s'' @ nl) sniffed (nl @ ''Source IP: %s'' @ nl) parsed \<longleftrightarrow>
       e = Little \<or> [p ! 12, p ! 13, p ! 14, p ! 15] = [p ! 15, p ! 14, p ! 13, p ! 12]) \<and>
    (same_values (''   |-Destination IP       : %s'' @ nl) sniffed (''Destination IP: %s'' @ nl) parsed \<longleftrightarrow>
       e = Little \<or> [p ! 16, p ! 17, p ! 18, p ! 19] = [p ! 19, p ! 18, p ! 17, p ! 16])"
proof -
  have "5 \<le> unat (p ! 0) mod 16" using assms(3) by (simp add: not_less ihl_value)
  then have l: "20 \<le> length p" using assms(5) by simp
  let ?h = "ip_header_at e p"
  have p: "ip_header_bytes e ?h @ drop 20 p = p" using ip_header_view [OF l, of e] by simp
  have v: "version_ihl ?h = p ! 0" by (simp add: ip_header_at_def)
  let ?sniffed = "sniffed_view e ?h"
  let ?parsed = "ip_banner # ip_report e ?h 4 (p ! 0 AND 0x0F) ((p ! 0 AND 0x0F) * 4) (ip_ok e ?h)
    (take (4 * (unat (p ! 0) mod 16) - 20) (drop 20 p))"
  have a: "dotted (ip_octets (source_ip ?h)) = inet_ntoa e (source_ip ?h) \<longleftrightarrow>
      e = Little \<or> [p ! 12, p ! 13, p ! 14, p ! 15] = [p ! 15, p ! 14, p ! 13, p ! 12]"
    and b: "dotted (ip_octets (dest_ip ?h)) = inet_ntoa e (dest_ip ?h) \<longleftrightarrow>
      e = Little \<or> [p ! 16, p ! 17, p ! 18, p ! 19] = [p ! 19, p ! 18, p ! 17, p ! 16]"
    unfolding dotted_both_ways [symmetric] by (simp_all add: ip_header_at_def)
  have four: "uint (drop_bit 4 (p ! 0)) = 4" and w: "uint ((ucast (p ! 0 AND 0x0F) :: u32) * 4) = uint ((p ! 0 AND 0x0F) * 4)"
    using version_and_length [of "p ! 0"] assms(2) by simp_all
  note defs = same_values_def ip_report_def ip_banner_def tos_output_def flags_output_def printed_append
    protocol_lines [simplified append_Cons append_Nil] no_option_line Let_def v sniffed_view_def
  show ?thesis
  proof (intro exI conjI)
    show "sniffed_ip_header e (eth @ p) = Some ?sniffed"
      using sniffed_ip_header_view [OF assms(1), of e ?h "drop 20 p"] by (simp only: p)
    show "parse_ip_header e p len = Some (?parsed, p)"
      using parse_ip_header_view [of ?h len "drop 20 p" e] assms(2-5) l by (simp add: p v)
  qed (simp_all add: defs w four a b eq_commute [of "inet_ntoa e (source_ip ?h)"] eq_commute [of "inet_ntoa e (dest_ip ?h)"])
qed

theorem parser_and_sniffer_agree_witness:
  "\<exists>sniffed parsed. sniffed_ip_header Big (replicate 14 0 @ 0x45 # replicate 11 0 @ [10, 0, 0, 1, 10, 0, 0, 10]) = Some sniffed \<and>
    parse_ip_header Big (0x45 # replicate 11 0 @ [10, 0, 0, 1, 10, 0, 0, 10]) 20 =
      Some (parsed, 0x45 # replicate 11 0 @ [10, 0, 0, 1, 10, 0, 0, 10]) \<and>
    same_values (''   |-TTL                  : %d'' @ nl) sniffed (nl @ ''Time To Live (TTL): %d'' @ nl) parsed \<and>
    \<not> same_values (''   |-Source IP            : %s'' @ nl) sniffed (nl @ ''Source IP: %s'' @ nl) parsed \<and>
    same_values (''   |-Destination IP       : %s'' @ nl) sniffed (''Destination IP: %s'' @ nl) parsed"
  using parser_and_sniffer_agree [of "replicate 14 0" "0x45 # replicate 11 0 @ [10, 0, 0, 1, 10, 0, 0, 10]" 20 Big]
  by (auto simp: nth_append)

end
